theory Spec2Isabelle
  imports Main "HOL-Library.Word" "HOL-Library.List_Lexorder" "HOL-Library.Char_ord"
    "HOL-Library.Sublist" "HOL-Library.Multiset" "HOL-Library.AList"
begin

section \<open>The filesystem\<close>

text \<open>
  fsync.py works on \<open>pathlib.Path\<close> objects and on the filesystem behind them. A path is
  the list of its components; the filesystem is a tree whose inner nodes are directories
  (a listing of named children; the order of a listing is whatever \<open>iterdir\<close> yields) and
  whose leaves are regular files (their bytes) or special files (named pipes: they
  exist, and both \<open>is_file()\<close> and \<open>is_dir()\<close> are false on them). Symbolic links, sockets
  and devices are not modelled, every file is readable, and a path may be as long as
  it likes. Names are compared as Python compares strings and POSIX paths:
  lexicographically, character by character.
\<close>

type_synonym byte = "8 word"

type_synonym Path = "string list"

datatype node = File "byte list" | Dir "(string \<times> node) list" | Special

text \<open>
  The exceptions of the program and of the library calls it makes. \<open>Blocked\<close> is no
  exception: it stands for a call that does not return, so that the program does
  nothing more.
\<close>

datatype error =
    Exception string
  | FileNotFoundError
  | FileExistsError
  | NotADirectoryError
  | IsADirectoryError
  | PermissionError
  | SpecialFileError
  | SameFileError
  | ShutilError
  | ValueError
  | RecursionError
  | Blocked

fun lookup :: "node \<Rightarrow> Path \<Rightarrow> node option" where
  "lookup n [] = Some n"
| "lookup (Dir cs) (x # p) = (case map_of cs x of None \<Rightarrow> None | Some c \<Rightarrow> lookup c p)"
| "lookup _ (x # p) = None"

definition Path_exists :: "node \<Rightarrow> Path \<Rightarrow> bool" where
  "Path_exists fs p = (lookup fs p \<noteq> None)"

definition Path_is_dir :: "node \<Rightarrow> Path \<Rightarrow> bool" where
  "Path_is_dir fs p = (case lookup fs p of Some (Dir cs) \<Rightarrow> True | _ \<Rightarrow> False)"

definition Path_is_file :: "node \<Rightarrow> Path \<Rightarrow> bool" where
  "Path_is_file fs p = (case lookup fs p of Some (File bs) \<Rightarrow> True | _ \<Rightarrow> False)"

text \<open>\<open>Path.name\<close>: the final component; \<open>Path(name)\<close>: the path of one component.\<close>

definition Path_name :: "Path \<Rightarrow> string" where
  "Path_name p = (if p = [] then [] else last p)"

definition Path_of :: "string \<Rightarrow> Path" where
  "Path_of s = [s]"

text \<open>\<open>p.relative_to(base)\<close> raises \<open>ValueError\<close> unless \<open>p\<close> lies under \<open>base\<close>.\<close>

definition relative_to :: "Path \<Rightarrow> Path \<Rightarrow> error + Path" where
  "relative_to p base =
     (if prefix base p then Inr (drop (length base) p) else Inl ValueError)"

section \<open>The state of a comparison\<close>

record DirData =
  path :: Path
  diff :: "Path list"

record DirsData =
  data_left :: DirData
  data_right :: DirData
  hash_diff :: "(Path \<times> Path) list"

text \<open>
  \<open>progress_bar\<close> is the truth value of \<open>self.progress_bar\<close>: the flag given to the
  constructor and, once a phase has replaced it by a bar, whether that bar's total is
  positive. The bar itself only displays.
\<close>

record FSync =
  dirs_data :: DirsData
  progress_bar :: bool

definition DirData_init :: "Path \<Rightarrow> DirData" where
  "DirData_init p = \<lparr>path = p, diff = []\<rparr>"

definition DirsData_init :: "Path \<Rightarrow> Path \<Rightarrow> DirsData" where
  "DirsData_init path_left path_right =
     \<lparr>data_left = DirData_init path_left, data_right = DirData_init path_right,
      hash_diff = []\<rparr>"

text \<open>
  The constructor: \<open>raise Exception(...)\<close> when a root is not a directory. The message of
  the program also quotes the path; the model keeps the fixed words of the message.
\<close>

definition FSync_init :: "node \<Rightarrow> Path \<Rightarrow> Path \<Rightarrow> bool \<Rightarrow> error + FSync" where
  "FSync_init fs dir_path_left dir_path_right pb =
     (let self = \<lparr>dirs_data = DirsData_init dir_path_left dir_path_right, progress_bar = pb\<rparr> in
      if \<not> Path_is_dir fs (path (data_left (dirs_data self)))
      then Inl (Exception ''Left path is not a valid directory!'')
      else if \<not> Path_is_dir fs (path (data_right (dirs_data self)))
      then Inl (Exception ''Right path is not a valid directory!'')
      else Inr self)"

text \<open>The three appends of the comparison: \<open>self.dirs_data.<list>.append(...)\<close>.\<close>

definition left_diff_append :: "Path \<Rightarrow> FSync \<Rightarrow> FSync" where
  "left_diff_append p self =
     self\<lparr>dirs_data := (dirs_data self)\<lparr>data_left :=
       (data_left (dirs_data self))\<lparr>diff := diff (data_left (dirs_data self)) @ [p]\<rparr>\<rparr>\<rparr>"

definition right_diff_append :: "Path \<Rightarrow> FSync \<Rightarrow> FSync" where
  "right_diff_append p self =
     self\<lparr>dirs_data := (dirs_data self)\<lparr>data_right :=
       (data_right (dirs_data self))\<lparr>diff := diff (data_right (dirs_data self)) @ [p]\<rparr>\<rparr>\<rparr>"

definition hash_diff_append :: "Path \<times> Path \<Rightarrow> FSync \<Rightarrow> FSync" where
  "hash_diff_append pq self =
     self\<lparr>dirs_data := (dirs_data self)\<lparr>hash_diff := hash_diff (dirs_data self) @ [pq]\<rparr>\<rparr>"

abbreviation left_only :: "FSync \<Rightarrow> Path list" where
  "left_only self \<equiv> diff (data_left (dirs_data self))"

abbreviation right_only :: "FSync \<Rightarrow> Path list" where
  "right_only self \<equiv> diff (data_right (dirs_data self))"

abbreviation hash_diffs :: "FSync \<Rightarrow> (Path \<times> Path) list" where
  "hash_diffs self \<equiv> hash_diff (dirs_data self)"

section \<open>Directory entries\<close>

text \<open>
  The comparison only reads, and the tool assumes that nobody else writes meanwhile. So
  a \<open>Path\<close> that \<open>iterdir\<close> yielded is modelled together with what the filesystem holds
  there. The list comprehension \<open>[x for x in contents if x.is_file()]\<close> keeps the
  regular files, each with its bytes; \<open>[x for x in contents if x.is_dir()]\<close> keeps the
  directories, each with its listing. A special file passes neither filter.
\<close>

type_synonym entry = "Path \<times> node"

type_synonym file_entry = "Path \<times> byte list"

type_synonym dir_entry = "Path \<times> (string \<times> node) list"

definition iterdir :: "dir_entry \<Rightarrow> entry list" where
  "iterdir d = map (\<lambda>(n, c). (fst d @ [n], c)) (snd d)"

definition sorted_paths :: "entry list \<Rightarrow> entry list" where
  "sorted_paths xs = sort_key fst xs"

fun files_in :: "entry list \<Rightarrow> file_entry list" where
  "files_in [] = []"
| "files_in ((p, File bs) # xs) = (p, bs) # files_in xs"
| "files_in (x # xs) = files_in xs"

fun dirs_in :: "entry list \<Rightarrow> dir_entry list" where
  "dirs_in [] = []"
| "dirs_in ((p, Dir cs) # xs) = (p, cs) # dirs_in xs"
| "dirs_in (x # xs) = dirs_in xs"

section \<open>The equality oracle\<close>

text \<open>
  Two library functions are parameters of the model. \<open>decodes bs\<close> says that reading
  three characters from a text-mode stream over the bytes \<open>bs\<close> raises no
  \<open>UnicodeDecodeError\<close>; \<open>md5 bs\<close> is the digest of \<open>bs\<close>. The oracle also returns the
  file operations it performed, in order.
\<close>

datatype file_op = Stat Path | OpenText Path | ReadBytes Path

definition is_file_text :: "(byte list \<Rightarrow> bool) \<Rightarrow> file_entry \<Rightarrow> bool" where
  "is_file_text decodes file_path = decodes (snd file_path)"

definition are_files_equal ::
  "(byte list \<Rightarrow> bool) \<Rightarrow> (byte list \<Rightarrow> byte list) \<Rightarrow> file_entry \<Rightarrow> file_entry
     \<Rightarrow> bool \<times> file_op list" where
  "are_files_equal decodes md5 path_left path_right =
     (let left_size = length (snd path_left);
          right_size = length (snd path_right);
          stats = [Stat (fst path_left), Stat (fst path_right)];
          hashes = (md5 (snd path_left) = md5 (snd path_right),
                    stats @ [OpenText (fst path_left),
                             ReadBytes (fst path_left), ReadBytes (fst path_right)])
      in if left_size \<noteq> right_size then (False, stats)
         else if \<not> is_file_text decodes path_left
         then (if left_size > 1000000 then (True, stats @ [OpenText (fst path_left)])
               else hashes)
         else hashes)"

section \<open>The merge of two sorted listings\<close>

text \<open>
  The three \<open>while\<close> loops of \<open>_compare_subfiles\<close>: the two-pointer merge, then the rest
  of the left list, then the rest of the right list. The lists are what is left from
  each iterator on.
\<close>

fun compare_subfiles_loop ::
  "(byte list \<Rightarrow> bool) \<Rightarrow> (byte list \<Rightarrow> byte list) \<Rightarrow> file_entry list \<Rightarrow> file_entry list
     \<Rightarrow> FSync \<Rightarrow> FSync" where
  "compare_subfiles_loop decodes md5 (l # ls) (r # rs) self =
     (if Path_name (fst l) = Path_name (fst r)
      then compare_subfiles_loop decodes md5 ls rs
             (if \<not> fst (are_files_equal decodes md5 l r)
              then hash_diff_append (fst l, fst r) self else self)
      else if Path_of (Path_name (fst l)) < Path_of (Path_name (fst r))
      then compare_subfiles_loop decodes md5 ls (r # rs) (left_diff_append (fst l) self)
      else compare_subfiles_loop decodes md5 (l # ls) rs (right_diff_append (fst r) self))"
| "compare_subfiles_loop decodes md5 ls [] self = fold left_diff_append (map fst ls) self"
| "compare_subfiles_loop decodes md5 [] rs self = fold right_diff_append (map fst rs) self"

definition compare_subfiles ::
  "(byte list \<Rightarrow> bool) \<Rightarrow> (byte list \<Rightarrow> byte list) \<Rightarrow> entry list \<Rightarrow> entry list
     \<Rightarrow> FSync \<Rightarrow> FSync" where
  "compare_subfiles decodes md5 left_dir_contents right_dir_contents self =
     (let left_files = files_in left_dir_contents;
          right_files = files_in right_dir_contents
      in compare_subfiles_loop decodes md5 left_files right_files self)"

text \<open>
  The same loops in \<open>_compare_subdirs\<close>; a pair of equal names is appended to
  \<open>next_subdirs\<close> instead of being compared.
\<close>

fun compare_subdirs_loop ::
  "dir_entry list \<Rightarrow> dir_entry list \<Rightarrow> (dir_entry \<times> dir_entry) list \<Rightarrow> FSync
     \<Rightarrow> (dir_entry \<times> dir_entry) list \<times> FSync" where
  "compare_subdirs_loop (l # ls) (r # rs) next_subdirs self =
     (if Path_name (fst l) = Path_name (fst r)
      then compare_subdirs_loop ls rs (next_subdirs @ [(l, r)]) self
      else if Path_of (Path_name (fst l)) < Path_of (Path_name (fst r))
      then compare_subdirs_loop ls (r # rs) next_subdirs (left_diff_append (fst l) self)
      else compare_subdirs_loop (l # ls) rs next_subdirs (right_diff_append (fst r) self))"
| "compare_subdirs_loop ls [] next_subdirs self =
     (next_subdirs, fold left_diff_append (map fst ls) self)"
| "compare_subdirs_loop [] rs next_subdirs self =
     (next_subdirs, fold right_diff_append (map fst rs) self)"

section \<open>The recursive comparison\<close>

text \<open>
  \<open>_compare_dir_contents\<close> lists and sorts both directories and runs the two merges;
  \<open>_compare_subdirs\<close> ends with \<open>for dir_entry in next_subdirs\<close>, which calls
  \<open>_compare_dir_contents\<close> on every matched pair (\<open>for_next_subdirs\<close>).
\<close>

function
  compare_dir_contents ::
    "(byte list \<Rightarrow> bool) \<Rightarrow> (byte list \<Rightarrow> byte list) \<Rightarrow> dir_entry \<Rightarrow> dir_entry
       \<Rightarrow> FSync \<Rightarrow> FSync"
and compare_subdirs ::
    "(byte list \<Rightarrow> bool) \<Rightarrow> (byte list \<Rightarrow> byte list) \<Rightarrow> entry list \<Rightarrow> entry list
       \<Rightarrow> FSync \<Rightarrow> FSync"
and for_next_subdirs ::
    "(byte list \<Rightarrow> bool) \<Rightarrow> (byte list \<Rightarrow> byte list) \<Rightarrow> (dir_entry \<times> dir_entry) list
       \<Rightarrow> FSync \<Rightarrow> FSync"
where
  "compare_dir_contents decodes md5 left_dir_path right_dir_path self =
     compare_subdirs decodes md5
       (sorted_paths (iterdir left_dir_path)) (sorted_paths (iterdir right_dir_path))
       (compare_subfiles decodes md5
          (sorted_paths (iterdir left_dir_path)) (sorted_paths (iterdir right_dir_path)) self)"
| "compare_subdirs decodes md5 left_dir_contents right_dir_contents self =
     for_next_subdirs decodes md5
       (fst (compare_subdirs_loop (dirs_in left_dir_contents) (dirs_in right_dir_contents)
               [] self))
       (snd (compare_subdirs_loop (dirs_in left_dir_contents) (dirs_in right_dir_contents)
               [] self))"
| "for_next_subdirs decodes md5 [] self = self"
| "for_next_subdirs decodes md5 (dir_entry # next_subdirs) self =
     for_next_subdirs decodes md5 next_subdirs
       (compare_dir_contents decodes md5 (fst dir_entry) (snd dir_entry) self)"
  by pat_completeness auto

text \<open>Termination: the recursion descends into the left tree.\<close>

definition dir_weight :: "dir_entry \<Rightarrow> nat" where
  "dir_weight d = size (Dir (snd d))"

definition entries_weight :: "entry list \<Rightarrow> nat" where
  "entries_weight xs = sum_list (map (\<lambda>x. size (snd x)) xs)"

definition pairs_weight :: "(dir_entry \<times> dir_entry) list \<Rightarrow> nat" where
  "pairs_weight ps = sum_list (map (\<lambda>p. dir_weight (fst p)) ps)"

lemma dirs_in_weight: "sum_list (map dir_weight (dirs_in xs)) \<le> entries_weight xs"
  by (induction xs rule: dirs_in.induct) (auto simp: entries_weight_def dir_weight_def)

lemma compare_subdirs_loop_weight:
  "pairs_weight (fst (compare_subdirs_loop ls rs ns self))
     \<le> pairs_weight ns + sum_list (map dir_weight ls)"
  by (induction ls rs ns self rule: compare_subdirs_loop.induct)
     (auto simp: pairs_weight_def)

lemma entries_weight_sorted: "entries_weight (sorted_paths xs) = entries_weight xs"
proof -
  have "mset (sorted_paths xs) = mset xs"
    by (simp add: sorted_paths_def)
  then have "mset (map (\<lambda>x. size (snd x)) (sorted_paths xs)) = mset (map (\<lambda>x. size (snd x)) xs)"
    by (metis mset_map)
  then show ?thesis
    unfolding entries_weight_def by (metis sum_mset_sum_list)
qed

lemma entries_weight_iterdir: "entries_weight (iterdir d) < dir_weight d"
proof -
  have "sum_list (map (\<lambda>x. size (snd x)) (map (\<lambda>(n, c). (p @ [n], c)) cs))
          \<le> size_list (size_prod (\<lambda>_. 0) size) cs" for p :: Path and cs :: "(string \<times> node) list"
    by (induction cs) auto
  then show ?thesis
    by (simp add: entries_weight_def iterdir_def dir_weight_def less_Suc_eq_le)
qed

lemma next_subdirs_weight:
  "pairs_weight (fst (compare_subdirs_loop (dirs_in lc) (dirs_in rc) [] self))
     \<le> entries_weight lc"
  using compare_subdirs_loop_weight [of "dirs_in lc" "dirs_in rc" "[]" self]
    dirs_in_weight [of lc]
  by (simp add: pairs_weight_def)

termination compare_dir_contents
proof (relation "measure (\<lambda>x. case x of
         Inl (decodes, md5, l, r, self) \<Rightarrow> 3 * dir_weight l
       | Inr (Inl (decodes, md5, lc, rc, self)) \<Rightarrow> 3 * entries_weight lc + 2
       | Inr (Inr (decodes, md5, ns, self)) \<Rightarrow> 3 * pairs_weight ns + 1)", goal_cases)
  case 1
  show ?case by simp
next
  case (2 decodes md5 left_dir_path right_dir_path self)
  show ?case
    using entries_weight_iterdir [of left_dir_path]
    by (simp add: entries_weight_sorted)
next
  case (3 decodes md5 left_dir_contents right_dir_contents self)
  show ?case
    using next_subdirs_weight [of left_dir_contents right_dir_contents self]
    by (simp add: split_beta)
next
  case (4 decodes md5 dir_entry next_subdirs self)
  show ?case by (simp add: pairs_weight_def)
next
  case (5 decodes md5 dir_entry next_subdirs self)
  have "0 < dir_weight (fst dir_entry)"
    by (simp add: dir_weight_def)
  then show ?case by (simp add: pairs_weight_def)
qed

section \<open>The comparison of the two roots\<close>

text \<open>
  \<open>iterdir\<close> on a path of the filesystem: the directory with its listing, or the
  exception that \<open>iterdir\<close> raises.
\<close>

definition opendir :: "node \<Rightarrow> Path \<Rightarrow> error + dir_entry" where
  "opendir fs p =
     (case lookup fs p of
        None \<Rightarrow> Inl FileNotFoundError
      | Some (Dir cs) \<Rightarrow> Inr (p, cs)
      | Some _ \<Rightarrow> Inl NotADirectoryError)"

text \<open>\<open>sum(1 for i in p.rglob('*'))\<close>: the number of entries below a directory.\<close>

fun rglob_count :: "node \<Rightarrow> nat"
and rglob_count_children :: "(string \<times> node) list \<Rightarrow> nat" where
  "rglob_count (Dir cs) = rglob_count_children cs"
| "rglob_count (File bs) = 0"
| "rglob_count Special = 0"
| "rglob_count_children [] = 0"
| "rglob_count_children (nc # cs) = Suc (rglob_count (snd nc)) + rglob_count_children cs"

definition check_differences ::
  "(byte list \<Rightarrow> bool) \<Rightarrow> (byte list \<Rightarrow> byte list) \<Rightarrow> node \<Rightarrow> FSync \<Rightarrow> error + FSync" where
  "check_differences decodes md5 fs self =
     (let left_dir_path = path (data_left (dirs_data self));
          right_dir_path = path (data_right (dirs_data self))
      in case opendir fs left_dir_path of
           Inl e \<Rightarrow> Inl e
         | Inr l \<Rightarrow>
             (case opendir fs right_dir_path of
                Inl e \<Rightarrow> Inl e
              | Inr r \<Rightarrow>
                  (let total_files_count =
                         rglob_count_children (snd l) + rglob_count_children (snd r);
                       self' = (if progress_bar self
                                then self\<lparr>progress_bar := 0 < total_files_count\<rparr> else self)
                   in Inr (compare_dir_contents decodes md5 l r self'))))"

section \<open>The library calls that change the filesystem\<close>

text \<open>
  \<open>put parents fs p new\<close> stores \<open>new\<close> at \<open>p\<close>. The directory above \<open>p\<close> must exist, unless
  \<open>parents\<close> is set: then missing directories are created on the way, as \<open>os.makedirs\<close>
  does. \<open>delete_at fs p\<close> removes the entry at \<open>p\<close>.
\<close>

fun wrap :: "Path \<Rightarrow> node \<Rightarrow> node" where
  "wrap [] new = new"
| "wrap (x # p) new = Dir [(x, wrap p new)]"

fun put :: "bool \<Rightarrow> node \<Rightarrow> Path \<Rightarrow> node \<Rightarrow> error + node" where
  "put parents fs [] new = Inr new"
| "put parents (Dir cs) (x # p) new =
     (case map_of cs x of
        None \<Rightarrow>
          (if p = [] \<or> parents then Inr (Dir (AList.update x (wrap p new) cs))
           else Inl FileNotFoundError)
      | Some c \<Rightarrow>
          (case put parents c p new of
             Inl e \<Rightarrow> Inl e
           | Inr c' \<Rightarrow> Inr (Dir (AList.update x c' cs))))"
| "put parents fs (x # p) new = Inl NotADirectoryError"

fun delete_at :: "node \<Rightarrow> Path \<Rightarrow> error + node" where
  "delete_at fs [] = Inl PermissionError"
| "delete_at (Dir cs) (x # p) =
     (case map_of cs x of
        None \<Rightarrow> Inl FileNotFoundError
      | Some c \<Rightarrow>
          (if p = [] then Inr (Dir (AList.delete x cs))
           else (case delete_at c p of
                   Inl e \<Rightarrow> Inl e
                 | Inr c' \<Rightarrow> Inr (Dir (AList.update x c' cs)))))"
| "delete_at fs (x # p) = Inl NotADirectoryError"

fun has_special :: "node \<Rightarrow> bool"
and has_special_children :: "(string \<times> node) list \<Rightarrow> bool" where
  "has_special (Dir cs) = has_special_children cs"
| "has_special (File bs) = False"
| "has_special Special = True"
| "has_special_children [] = False"
| "has_special_children (nc # cs) = (has_special (snd nc) \<or> has_special_children cs)"

text \<open>
  \<open>shutil.copyfile(src, dst)\<close>: refuses the same file and a special file, reads a
  regular file, and writes a regular file into an existing directory.
\<close>

definition copyfile :: "node \<Rightarrow> Path \<Rightarrow> Path \<Rightarrow> error + node" where
  "copyfile fs src dst =
     (if src = dst \<and> Path_exists fs src then Inl SameFileError
      else if lookup fs src = Some Special \<or> lookup fs dst = Some Special
      then Inl SpecialFileError
      else case lookup fs src of
             None \<Rightarrow> Inl FileNotFoundError
           | Some (Dir cs) \<Rightarrow> Inl IsADirectoryError
           | Some Special \<Rightarrow> Inl SpecialFileError
           | Some (File bs) \<Rightarrow>
               (case lookup fs dst of
                  Some (Dir cs) \<Rightarrow> Inl IsADirectoryError
                | _ \<Rightarrow> put False fs dst (File bs)))"

text \<open>
  \<open>shutil.copytree(src, dst)\<close> lists \<open>src\<close> (\<open>os.scandir\<close>), then creates \<open>dst\<close>, which must
  not exist, with its missing parents (\<open>os.makedirs\<close>), then copies the listed entries.
  So a destination inside the source receives the entries that were listed before it
  was created. When the destination lies in a directory that is itself an entry of the
  source, the copy of that entry reaches the new directories and descends into them
  without end: \<open>RecursionError\<close>, which \<open>copytree\<close> does not catch. The errors of the
  single copies it does catch, and raises \<open>shutil.Error\<close> at the end: that is what a
  special file in the tree leads to.
\<close>

definition copytree :: "node \<Rightarrow> Path \<Rightarrow> Path \<Rightarrow> error + node" where
  "copytree fs src dst =
     (case lookup fs src of
        None \<Rightarrow> Inl FileNotFoundError
      | Some (Dir cs) \<Rightarrow>
          (if Path_exists fs dst then Inl FileExistsError
           else case put True fs dst (Dir cs) of
                  Inl e \<Rightarrow> Inl e
                | Inr fs' \<Rightarrow>
                    (if prefix src dst \<and> Path_is_dir fs (take (Suc (length src)) dst)
                     then Inl RecursionError
                     else if has_special (Dir cs) then Inl ShutilError
                     else Inr fs'))
      | Some _ \<Rightarrow> Inl NotADirectoryError)"

text \<open>
  \<open>shutil.rmtree(p)\<close> removes a directory. It opens \<open>p\<close> before it lists it: on a regular
  file the listing raises, and on a named pipe the \<open>open\<close> waits for a writer.
  \<open>p.unlink()\<close> removes an entry that is no directory.
\<close>

definition rmtree :: "node \<Rightarrow> Path \<Rightarrow> error + node" where
  "rmtree fs p =
     (case lookup fs p of
        None \<Rightarrow> Inl FileNotFoundError
      | Some (Dir cs) \<Rightarrow> delete_at fs p
      | Some (File bs) \<Rightarrow> Inl NotADirectoryError
      | Some Special \<Rightarrow> Inl Blocked)"

definition unlink :: "node \<Rightarrow> Path \<Rightarrow> error + node" where
  "unlink fs p =
     (case lookup fs p of
        None \<Rightarrow> Inl FileNotFoundError
      | Some (Dir cs) \<Rightarrow> Inl IsADirectoryError
      | Some _ \<Rightarrow> delete_at fs p)"

section \<open>The synchronisation\<close>

definition sync_items :: "node \<Rightarrow> Path \<Rightarrow> Path \<Rightarrow> bool \<Rightarrow> error + node" where
  "sync_items fs item1 item2 overwrite =
     (if Path_exists fs item1 then
        (if \<not> overwrite \<and> \<not> Path_exists fs item2 then
           (if Path_is_dir fs item1 then copytree fs item1 item2
            else copyfile fs item1 item2)
         else if overwrite then
           (if Path_is_dir fs item1 then
              (case (if Path_exists fs item2 then rmtree fs item2 else Inr fs) of
                 Inl e \<Rightarrow> Inl e
               | Inr fs' \<Rightarrow> copytree fs' item1 item2)
            else copyfile fs item1 item2)
         else Inr fs)
      else Inr fs)"

definition remove_item :: "node \<Rightarrow> Path \<Rightarrow> error + node" where
  "remove_item fs item =
     (if Path_exists fs item then
        (if Path_is_dir fs item then rmtree fs item else unlink fs item)
      else Inr fs)"

text \<open>A \<open>for\<close> loop whose body may raise: the first exception ends it.\<close>

fun for_each :: "('a \<Rightarrow> node \<Rightarrow> error + node) \<Rightarrow> 'a list \<Rightarrow> node \<Rightarrow> error + node" where
  "for_each body [] fs = Inr fs"
| "for_each body (x # xs) fs =
     (case body x fs of Inl e \<Rightarrow> Inl e | Inr fs' \<Rightarrow> for_each body xs fs')"

text \<open>
  \<open>sync_dirs(self, overwrite=False, add_missing=False, remove_extra=False,
  reverse_direction=True)\<close>. An argument the caller leaves out is \<open>None\<close> here, and the
  parameter then has the default of the signature.
\<close>

definition sync_dirs ::
  "FSync \<Rightarrow> bool option \<Rightarrow> bool option \<Rightarrow> bool option \<Rightarrow> bool option \<Rightarrow> node
     \<Rightarrow> error + node" where
  "sync_dirs self overwrite_arg add_missing_arg remove_extra_arg reverse_direction_arg fs =
     (let overwrite = (case overwrite_arg of None \<Rightarrow> False | Some b \<Rightarrow> b);
          add_missing = (case add_missing_arg of None \<Rightarrow> False | Some b \<Rightarrow> b);
          remove_extra = (case remove_extra_arg of None \<Rightarrow> False | Some b \<Rightarrow> b);
          reverse_direction = (case reverse_direction_arg of None \<Rightarrow> True | Some b \<Rightarrow> b);
          total_files_count =
            (if add_missing
             then (if \<not> reverse_direction then length (left_only self)
                   else length (right_only self))
             else 0)
            + (if remove_extra
               then (if \<not> reverse_direction then length (right_only self)
                     else length (left_only self))
               else 0)
            + (if overwrite then length (hash_diffs self) else 0)
      in if progress_bar self \<and> total_files_count = 0 then Inr fs
         else
           (case (if add_missing
                  then for_each
                         (\<lambda>item_src fs.
                            let src_base_path =
                                  (if \<not> reverse_direction then path (data_left (dirs_data self))
                                   else path (data_right (dirs_data self)));
                                dst_base_path =
                                  (if \<not> reverse_direction then path (data_right (dirs_data self))
                                   else path (data_left (dirs_data self)))
                            in case relative_to item_src src_base_path of
                                 Inl e \<Rightarrow> Inl e
                               | Inr item_relative \<Rightarrow>
                                   sync_items fs item_src (dst_base_path @ item_relative)
                                     overwrite)
                         (if \<not> reverse_direction then left_only self else right_only self) fs
                  else Inr fs) of
              Inl e \<Rightarrow> Inl e
            | Inr fs1 \<Rightarrow>
                (case (if remove_extra
                       then for_each (\<lambda>item fs. remove_item fs item)
                              (if \<not> reverse_direction then right_only self
                               else left_only self) fs1
                       else Inr fs1) of
                   Inl e \<Rightarrow> Inl e
                 | Inr fs2 \<Rightarrow>
                     (if overwrite
                      then for_each
                             (\<lambda>item fs.
                                let item_src = (if \<not> reverse_direction then fst item
                                                else snd item);
                                    item_dst = (if \<not> reverse_direction then snd item
                                                else fst item)
                                in sync_items fs item_src item_dst True)
                             (hash_diffs self) fs2
                      else Inr fs2))))"

section \<open>The command line\<close>

text \<open>
  Every option of the parser is a \<open>store_true\<close> flag: it is true exactly when it is on
  the command line.
\<close>

datatype flag =
    HideProgressBar
  | AddMissing
  | RemoveExtra
  | OverwriteHash
  | ReverseSyncDirection
  | MirrorContents

record args =
  left_path :: Path
  right_path :: Path
  hide_progress_bar :: bool
  add_missing :: bool
  remove_extra :: bool
  overwrite_hash :: bool
  reverse_sync_direction :: bool
  mirror_contents :: bool

definition prepare_args_parser :: "Path \<Rightarrow> Path \<Rightarrow> flag list \<Rightarrow> args" where
  "prepare_args_parser l r flags =
     \<lparr>left_path = l, right_path = r,
      hide_progress_bar = (HideProgressBar \<in> set flags),
      add_missing = (AddMissing \<in> set flags),
      remove_extra = (RemoveExtra \<in> set flags),
      overwrite_hash = (OverwriteHash \<in> set flags),
      reverse_sync_direction = (ReverseSyncDirection \<in> set flags),
      mirror_contents = (MirrorContents \<in> set flags)\<rparr>"

text \<open>\<open>main\<close>, without the printing: the comparison, then the synchronisation if asked for.\<close>

definition main ::
  "(byte list \<Rightarrow> bool) \<Rightarrow> (byte list \<Rightarrow> byte list) \<Rightarrow> args \<Rightarrow> node \<Rightarrow> error + FSync \<times> node" where
  "main decodes md5 a fs =
     (case FSync_init fs (left_path a) (right_path a) (\<not> hide_progress_bar a) of
        Inl e \<Rightarrow> Inl e
      | Inr fsync0 \<Rightarrow>
          (case check_differences decodes md5 fs fsync0 of
             Inl e \<Rightarrow> Inl e
           | Inr fsync \<Rightarrow>
               (let mirror = mirror_contents a;
                    add_missing = (if mirror then True else add_missing a);
                    remove_extra = (if mirror then True else remove_extra a);
                    overwrite_hash = (if mirror then True else overwrite_hash a);
                    reverse_direction = reverse_sync_direction a
                in if add_missing \<or> remove_extra \<or> overwrite_hash
                   then (case sync_dirs fsync (Some overwrite_hash) (Some add_missing)
                                 (Some remove_extra) (Some reverse_direction) fs of
                           Inl e \<Rightarrow> Inl e
                         | Inr fs' \<Rightarrow> Inr (fsync, fs'))
                   else Inr (fsync, fs))))"

section \<open>One-way synchronisation, as the documentation words it\<close>

text \<open>
  A synchronisation from a source side to a destination side: copy what only the source
  has, remove what only the destination has, and copy the source member of every pair
  over its destination member. \<open>pairs\<close> holds (source, destination). This definition is
  not part of the program; \<open>sync_dirs\<close> is compared with it.
\<close>

definition sync_one_way ::
  "Path \<Rightarrow> Path list \<Rightarrow> Path \<Rightarrow> Path list \<Rightarrow> (Path \<times> Path) list \<Rightarrow> bool \<Rightarrow> bool \<Rightarrow> bool
     \<Rightarrow> node \<Rightarrow> error + node" where
  "sync_one_way src_root src_only dst_root dst_only pairs ov add rem fs =
     (case (if add
            then for_each
                   (\<lambda>item fs. case relative_to item src_root of
                                 Inl e \<Rightarrow> Inl e
                               | Inr rel \<Rightarrow> sync_items fs item (dst_root @ rel) ov)
                   src_only fs
            else Inr fs) of
        Inl e \<Rightarrow> Inl e
      | Inr fs1 \<Rightarrow>
          (case (if rem then for_each (\<lambda>item fs. remove_item fs item) dst_only fs1
                 else Inr fs1) of
             Inl e \<Rightarrow> Inl e
           | Inr fs2 \<Rightarrow>
               (if ov
                then for_each (\<lambda>pair fs. sync_items fs (fst pair) (snd pair) True) pairs fs2
                else Inr fs2)))"

section \<open>Well-formed trees and what a comparison should find\<close>

text \<open>
  The definitions from here on are not part of the program: they state what is proved
  about it. In a filesystem the names of a directory are distinct.
\<close>

fun wf_node :: "node \<Rightarrow> bool"
and wf_children :: "(string \<times> node) list \<Rightarrow> bool" where
  "wf_node (Dir cs) = (distinct (map fst cs) \<and> wf_children cs)"
| "wf_node (File bs) = True"
| "wf_node Special = True"
| "wf_children [] = True"
| "wf_children (nc # cs) = (wf_node (snd nc) \<and> wf_children cs)"

text \<open>
  The comparison phase of \<open>main\<close>: the constructor, then \<open>check_differences\<close>.
\<close>

definition compare_roots ::
  "(byte list \<Rightarrow> bool) \<Rightarrow> (byte list \<Rightarrow> byte list) \<Rightarrow> node \<Rightarrow> Path \<Rightarrow> Path \<Rightarrow> bool
     \<Rightarrow> error + FSync" where
  "compare_roots decodes md5 fs l r pb =
     (case FSync_init fs l r pb of
        Inl e \<Rightarrow> Inl e
      | Inr self \<Rightarrow> check_differences decodes md5 fs self)"

text \<open>
  The paths of a list relative to a root, as \<open>get_report\<close> prints them with
  \<open>entry.relative_to(root)\<close>.
\<close>

definition relative_paths :: "Path \<Rightarrow> Path list \<Rightarrow> Path set" where
  "relative_paths base ps = {q. \<exists>p \<in> set ps. relative_to p base = Inr q}"

text \<open>
  The verdict of the oracle depends on the bytes only. \<open>A\<close> and \<open>B\<close> are the trees under
  the two roots and \<open>p\<close> is a relative path. \<open>only_in A B p\<close>: the directory of \<open>p\<close> exists
  on both sides, and \<open>p\<close> is a regular file of \<open>A\<close> but not of \<open>B\<close>, or a directory of \<open>A\<close>
  but not of \<open>B\<close>. \<open>differs\<close>: \<open>p\<close> is a regular file on both sides and the oracle says the
  two are not equal.
\<close>

definition verdict ::
  "(byte list \<Rightarrow> bool) \<Rightarrow> (byte list \<Rightarrow> byte list) \<Rightarrow> byte list \<Rightarrow> byte list \<Rightarrow> bool" where
  "verdict decodes md5 a b = fst (are_files_equal decodes md5 ([], a) ([], b))"

definition only_in :: "node \<Rightarrow> node \<Rightarrow> Path \<Rightarrow> bool" where
  "only_in A B p \<longleftrightarrow>
     p \<noteq> [] \<and> Path_is_dir A (butlast p) \<and> Path_is_dir B (butlast p)
     \<and> (Path_is_file A p \<and> \<not> Path_is_file B p \<or> Path_is_dir A p \<and> \<not> Path_is_dir B p)"

definition differs ::
  "(byte list \<Rightarrow> bool) \<Rightarrow> (byte list \<Rightarrow> byte list) \<Rightarrow> node \<Rightarrow> node \<Rightarrow> Path \<Rightarrow> bool" where
  "differs decodes md5 A B p =
     (case lookup A p of
        Some (File a) \<Rightarrow>
          (case lookup B p of Some (File b) \<Rightarrow> \<not> verdict decodes md5 a b | _ \<Rightarrow> False)
      | _ \<Rightarrow> False)"

text \<open>
  Three situations of a relative path \<open>q\<close> whose directory exists on both sides: a
  regular file on one side and a directory on the other; a directory of \<open>A\<close> that is no
  directory of \<open>B\<close>; a regular file of \<open>A\<close> that is a directory of \<open>B\<close>.
\<close>

definition kind_conflict :: "node \<Rightarrow> node \<Rightarrow> Path \<Rightarrow> bool" where
  "kind_conflict A B q \<longleftrightarrow>
     q \<noteq> [] \<and> Path_is_dir A (butlast q) \<and> Path_is_dir B (butlast q)
     \<and> (Path_is_file A q \<and> Path_is_dir B q \<or> Path_is_dir A q \<and> Path_is_file B q)"

definition unmatched_dir :: "node \<Rightarrow> node \<Rightarrow> Path \<Rightarrow> bool" where
  "unmatched_dir A B q \<longleftrightarrow>
     q \<noteq> [] \<and> Path_is_dir A (butlast q) \<and> Path_is_dir B (butlast q)
     \<and> Path_is_dir A q \<and> \<not> Path_is_dir B q"

definition file_against_dir :: "node \<Rightarrow> node \<Rightarrow> Path \<Rightarrow> bool" where
  "file_against_dir A B q \<longleftrightarrow>
     q \<noteq> [] \<and> Path_is_dir A (butlast q) \<and> Path_is_dir B (butlast q)
     \<and> Path_is_file A q \<and> Path_is_dir B q"

text \<open>
  The text probe classifies alike the two files of every pair that the size shortcut
  can apply to.
\<close>

definition same_classification :: "(byte list \<Rightarrow> bool) \<Rightarrow> node \<Rightarrow> node \<Rightarrow> bool" where
  "same_classification decodes L R =
     (\<forall>p a b. lookup L p = Some (File a) \<and> lookup R p = Some (File b)
               \<and> length a = length b \<and> 1000000 < length a
             \<longrightarrow> decodes a = decodes b)"

section \<open>Notions used in the proofs\<close>

text \<open>The state with its two sides exchanged, and the trees on which the oracle is symmetric.\<close>

definition swap_sides :: "FSync \<Rightarrow> FSync" where
  "swap_sides self =
     self\<lparr>dirs_data := \<lparr>data_left = data_right (dirs_data self),
                         data_right = data_left (dirs_data self),
                         hash_diff = map prod.swap (hash_diff (dirs_data self))\<rparr>\<rparr>"

definition sym_on :: "(byte list \<Rightarrow> bool) \<Rightarrow> (byte list \<Rightarrow> byte list) \<Rightarrow> node \<Rightarrow> node \<Rightarrow> bool" where
  "sym_on decodes md5 L R =
     (\<forall>p a b. lookup L p = Some (File a) \<and> lookup R p = Some (File b)
             \<longrightarrow> verdict decodes md5 a b = verdict decodes md5 b a)"

definition good_dir ::
  "(byte list \<Rightarrow> bool) \<Rightarrow> (byte list \<Rightarrow> byte list) \<Rightarrow> dir_entry \<Rightarrow> dir_entry \<Rightarrow> bool" where
  "good_dir decodes md5 l r \<longleftrightarrow>
     wf_node (Dir (snd l)) \<and> wf_node (Dir (snd r)) \<and> sym_on decodes md5 (Dir (snd l)) (Dir (snd r))"

definition wf_pair :: "dir_entry \<times> dir_entry \<Rightarrow> bool" where
  "wf_pair xy \<longleftrightarrow> wf_node (Dir (snd (fst xy))) \<and> wf_node (Dir (snd (snd xy)))"

text \<open>
  The entries of one sorted listing whose name is missing in the other, the pairs of
  equal names, and the pairs of files that the oracle tells apart.
\<close>

abbreviation entry_name :: "Path \<times> 'a \<Rightarrow> string" where
  "entry_name x \<equiv> Path_name (fst x)"

definition unmatched :: "(Path \<times> 'a) list \<Rightarrow> (Path \<times> 'b) list \<Rightarrow> (Path \<times> 'a) set" where
  "unmatched ls rs = {x \<in> set ls. entry_name x \<notin> entry_name ` set rs}"

definition matched ::
  "(Path \<times> 'a) list \<Rightarrow> (Path \<times> 'b) list \<Rightarrow> ((Path \<times> 'a) \<times> (Path \<times> 'b)) set" where
  "matched ls rs = {(x, y). x \<in> set ls \<and> y \<in> set rs \<and> entry_name x = entry_name y}"

definition differing ::
  "(byte list \<Rightarrow> bool) \<Rightarrow> (byte list \<Rightarrow> byte list) \<Rightarrow> (file_entry \<times> file_entry) set
     \<Rightarrow> (Path \<times> Path) set" where
  "differing decodes md5 M =
     {(fst x, fst y) | x y. (x, y) \<in> M \<and> \<not> verdict decodes md5 (snd x) (snd y)}"

text \<open>The paths that a comparison of two directories has to add to the lists.\<close>

definition only_paths :: "dir_entry \<Rightarrow> dir_entry \<Rightarrow> Path set" where
  "only_paths l r = {fst l @ q | q. only_in (Dir (snd l)) (Dir (snd r)) q}"

definition differ_paths ::
  "(byte list \<Rightarrow> bool) \<Rightarrow> (byte list \<Rightarrow> byte list) \<Rightarrow> dir_entry \<Rightarrow> dir_entry
     \<Rightarrow> (Path \<times> Path) set" where
  "differ_paths decodes md5 l r =
     {(fst l @ q, fst r @ q) | q. differs decodes md5 (Dir (snd l)) (Dir (snd r)) q}"

text \<open>
  What a path is, without the listing of a directory: a regular file with its bytes, a
  directory, or a special file.
\<close>

datatype kind = KFile "byte list" | KDir | KSpecial

definition kind_of :: "node \<Rightarrow> kind" where
  "kind_of c = (case c of File a \<Rightarrow> KFile a | Dir cs \<Rightarrow> KDir | Special \<Rightarrow> KSpecial)"

definition kind_at :: "node \<Rightarrow> Path \<Rightarrow> kind option" where
  "kind_at fs p = map_option kind_of (lookup fs p)"

text \<open>
  The kinds after a loop of copies from under \<open>l\<close> to under \<open>r\<close>, and after a loop of
  removals under \<open>r\<close>: \<open>S\<close> holds the relative paths done so far, \<open>K0\<close> the kinds before the
  synchronisation and \<open>B\<close> the kinds before the loop. \<open>copyable\<close> is what a relative path
  must satisfy for its copy to succeed.
\<close>

definition copied ::
  "(Path \<Rightarrow> kind option) \<Rightarrow> Path \<Rightarrow> Path \<Rightarrow> Path set \<Rightarrow> (Path \<Rightarrow> kind option) \<Rightarrow> Path
     \<Rightarrow> kind option" where
  "copied K0 l r S B p =
     (if \<exists>q \<in> S. prefix (r @ q) p then K0 (l @ drop (length r) p) else B p)"

definition removed :: "Path \<Rightarrow> Path set \<Rightarrow> (Path \<Rightarrow> kind option) \<Rightarrow> Path \<Rightarrow> kind option" where
  "removed r S B p = (if \<exists>q \<in> S. prefix (r @ q) p then None else B p)"

definition copyable ::
  "(Path \<Rightarrow> kind option) \<Rightarrow> Path \<Rightarrow> Path \<Rightarrow> (Path \<Rightarrow> kind option) \<Rightarrow> Path \<Rightarrow> bool" where
  "copyable K0 l r B q \<longleftrightarrow>
     q \<noteq> []
     \<and> (K0 (l @ q) = Some KDir \<or> (\<exists>a. K0 (l @ q) = Some (KFile a)))
     \<and> (\<forall>t. K0 (l @ q @ t) \<noteq> Some KSpecial)
     \<and> K0 (l @ butlast q) = Some KDir \<and> B (r @ butlast q) = Some KDir
     \<and> (B (r @ q) = None \<or> (K0 (l @ q) = Some KDir \<and> B (r @ q) = Some KDir)
         \<or> (\<exists>a b. K0 (l @ q) = Some (KFile a) \<and> B (r @ q) = Some (KFile b)))"

text \<open>The two \<open>-only\<close> lists of a state, and the two roots that it holds.\<close>

abbreviation only_lists :: "FSync \<Rightarrow> Path list \<times> Path list" where
  "only_lists s \<equiv> (left_only s, right_only s)"

abbreviation roots_of :: "FSync \<Rightarrow> Path \<times> Path" where
  "roots_of s \<equiv> (path (data_left (dirs_data s)), path (data_right (dirs_data s)))"

section \<open>Evaluation of examples\<close>

lemmas eval_defs =
  FSync_init_def DirsData_init_def DirData_init_def Path_is_dir_def Path_is_file_def
  Path_exists_def check_differences_def opendir_def iterdir_def sorted_paths_def
  compare_subfiles_def left_diff_append_def right_diff_append_def hash_diff_append_def
  Path_name_def Path_of_def are_files_equal_def is_file_text_def Let_def main_def
  prepare_args_parser_def sync_dirs_def sync_items_def remove_item_def copyfile_def
  copytree_def rmtree_def unlink_def relative_to_def sync_one_way_def

section \<open>Properties of the equality oracle\<close>

text \<open>
  Claim C2. For two regular files of equal size: when the left file does not decode as
  text and the size exceeds 1,000,000 bytes, the oracle answers true after two \<open>stat\<close>
  calls and the text probe of the left file, and reads neither file's contents;
  otherwise it reads both files and answers true exactly when the digests are equal.
\<close>

theorem are_files_equal_same_size:
  assumes "length (snd path_left) = length (snd path_right)"
  shows "are_files_equal decodes md5 path_left path_right =
     (if \<not> is_file_text decodes path_left \<and> 1000000 < length (snd path_left)
      then (True, [Stat (fst path_left), Stat (fst path_right), OpenText (fst path_left)])
      else (md5 (snd path_left) = md5 (snd path_right),
            [Stat (fst path_left), Stat (fst path_right), OpenText (fst path_left),
             ReadBytes (fst path_left), ReadBytes (fst path_right)]))"
  using assms by (simp add: are_files_equal_def Let_def)

theorem are_files_equal_same_size_witness:
  "length (snd ([''L'', ''f''], replicate 1000001 (0 :: byte)))
     = length (snd ([''R'', ''f''], replicate 1000001 (1 :: byte)))
   \<and> are_files_equal (\<lambda>bs. False) (\<lambda>bs. bs)
        ([''L'', ''f''], replicate 1000001 0) ([''R'', ''f''], replicate 1000001 1)
       = (True, [Stat [''L'', ''f''], Stat [''R'', ''f''], OpenText [''L'', ''f'']])
   \<and> are_files_equal (\<lambda>bs. True) (\<lambda>bs. bs)
        ([''L'', ''f''], replicate 1000001 0) ([''R'', ''f''], replicate 1000001 1)
       = (False, [Stat [''L'', ''f''], Stat [''R'', ''f''], OpenText [''L'', ''f''],
                  ReadBytes [''L'', ''f''], ReadBytes [''R'', ''f'']])"
  using are_files_equal_same_size
          [of "([''L'', ''f''], replicate 1000001 (0 :: byte))"
              "([''R'', ''f''], replicate 1000001 (1 :: byte))" "\<lambda>bs. False" "\<lambda>bs. bs"]
        are_files_equal_same_size
          [of "([''L'', ''f''], replicate 1000001 (0 :: byte))"
              "([''R'', ''f''], replicate 1000001 (1 :: byte))" "\<lambda>bs. True" "\<lambda>bs. bs"]
  by (simp add: is_file_text_def)

text \<open>
  Claim C4. Files of different sizes are never equal; two empty files are always equal;
  two text files with the same bytes are equal, whatever their size.
\<close>

theorem equality_oracle_properties:
  "(length (snd path_left) \<noteq> length (snd path_right)
      \<longrightarrow> \<not> fst (are_files_equal decodes md5 path_left path_right))
   \<and> (snd path_left = [] \<and> snd path_right = []
      \<longrightarrow> fst (are_files_equal decodes md5 path_left path_right))
   \<and> (is_file_text decodes path_left \<and> is_file_text decodes path_right
        \<and> snd path_left = snd path_right
      \<longrightarrow> fst (are_files_equal decodes md5 path_left path_right))"
  by (simp add: are_files_equal_def Let_def)

theorem equality_oracle_properties_witness:
  "\<not> fst (are_files_equal (\<lambda>bs. False) (\<lambda>bs. []) ([''L'', ''f''], [1]) ([''R'', ''f''], [1, 2]))
   \<and> fst (are_files_equal (\<lambda>bs. False) (\<lambda>bs. bs) ([''L'', ''f''], []) ([''R'', ''f''], []))
   \<and> fst (are_files_equal (\<lambda>bs. True) (\<lambda>bs. bs)
            ([''L'', ''f''], replicate 2000000 7) ([''R'', ''f''], replicate 2000000 7))"
  using equality_oracle_properties
          [of "([''L'', ''f''], [1])" "([''R'', ''f''], [1, 2])" "\<lambda>bs. False" "\<lambda>bs. []"]
        equality_oracle_properties
          [of "([''L'', ''f''], [])" "([''R'', ''f''], [])" "\<lambda>bs. False" "\<lambda>bs. bs"]
        equality_oracle_properties
          [of "([''L'', ''f''], replicate 2000000 7)" "([''R'', ''f''], replicate 2000000 7)"
              "\<lambda>bs. True" "\<lambda>bs. bs"]
  by (simp add: is_file_text_def)

section \<open>Properties of the constructor\<close>

text \<open>
  Claim C7. When both roots are existing directories, the constructor succeeds, with
  empty lists. When one of them is not, the constructor raises, and so does \<open>main\<close>, with
  the same exception: the run ends before \<open>check_differences\<close> lists a directory or reads
  a file, and there is no comparison state.
\<close>

theorem FSync_init_checks_roots:
  "(Path_is_dir fs l \<and> Path_is_dir fs r \<longrightarrow>
      FSync_init fs l r pb =
        Inr \<lparr>dirs_data = \<lparr>data_left = \<lparr>path = l, diff = []\<rparr>,
                          data_right = \<lparr>path = r, diff = []\<rparr>, hash_diff = []\<rparr>,
             progress_bar = pb\<rparr>)
   \<and> (\<not> (Path_is_dir fs l \<and> Path_is_dir fs r) \<longrightarrow>
        (\<exists>msg. FSync_init fs l r pb = Inl (Exception msg)
              \<and> main decodes md5 (prepare_args_parser l r flags) fs = Inl (Exception msg)))"
  by (auto simp: FSync_init_def DirsData_init_def DirData_init_def Let_def main_def
      prepare_args_parser_def)

theorem FSync_init_checks_roots_witness:
  "Path_is_dir (Dir [(''L'', Dir [(''a'', File [1])]), (''R'', File [])]) [''L'']
   \<and> FSync_init (Dir [(''L'', Dir [(''a'', File [1])]), (''R'', File [])]) [''L''] [''L''] False =
        Inr \<lparr>dirs_data = \<lparr>data_left = \<lparr>path = [''L''], diff = []\<rparr>,
                          data_right = \<lparr>path = [''L''], diff = []\<rparr>, hash_diff = []\<rparr>,
             progress_bar = False\<rparr>
   \<and> \<not> Path_is_dir (Dir [(''L'', Dir [(''a'', File [1])]), (''R'', File [])]) [''R'']
   \<and> (\<exists>msg. FSync_init (Dir [(''L'', Dir [(''a'', File [1])]), (''R'', File [])])
               [''L''] [''R''] False = Inl (Exception msg)
            \<and> main (\<lambda>bs. True) (\<lambda>bs. bs) (prepare_args_parser [''L''] [''R''] [MirrorContents])
                (Dir [(''L'', Dir [(''a'', File [1])]), (''R'', File [])]) = Inl (Exception msg))"
  using FSync_init_checks_roots
          [of "Dir [(''L'', Dir [(''a'', File [1])]), (''R'', File [])]" "[''L'']" "[''L'']" False]
        FSync_init_checks_roots
          [of "Dir [(''L'', Dir [(''a'', File [1])]), (''R'', File [])]" "[''L'']" "[''R'']" False
              "\<lambda>bs. True" "\<lambda>bs. bs" "[MirrorContents]"]
  by (simp add: Path_is_dir_def)

section \<open>Properties of the synchronisation\<close>

text \<open>
  Claim C10. \<open>_sync_items\<close> returns without an error and without a change when its source
  does not exist, and \<open>_remove_item\<close> does so when its target does not exist.
\<close>

theorem missing_items_are_skipped:
  "(\<not> Path_exists fs item1 \<longrightarrow> sync_items fs item1 item2 overwrite = Inr fs)
   \<and> (\<not> Path_exists fs item \<longrightarrow> remove_item fs item = Inr fs)"
  by (simp add: sync_items_def remove_item_def)

theorem missing_items_are_skipped_witness:
  "\<not> Path_exists (Dir [(''L'', Dir []), (''R'', Dir [(''a'', File [1])])]) [''L'', ''a'']
   \<and> sync_items (Dir [(''L'', Dir []), (''R'', Dir [(''a'', File [1])])])
        [''L'', ''a''] [''R'', ''a''] True
       = Inr (Dir [(''L'', Dir []), (''R'', Dir [(''a'', File [1])])])
   \<and> remove_item (Dir [(''L'', Dir []), (''R'', Dir [(''a'', File [1])])]) [''L'', ''a'']
       = Inr (Dir [(''L'', Dir []), (''R'', Dir [(''a'', File [1])])])"
  using missing_items_are_skipped
          [of "Dir [(''L'', Dir []), (''R'', Dir [(''a'', File [1])])]" "[''L'', ''a'']"
              "[''R'', ''a'']" True "[''L'', ''a'']"]
  by (simp add: Path_exists_def)

lemma for_each_map: "for_each body (map g xs) fs = for_each (\<lambda>x. body (g x)) xs fs"
  by (induction xs arbitrary: fs) (auto split: sum.splits)

lemma sync_dirs_reverse:
  "sync_dirs self (Some ov) (Some add) (Some rem) (Some True) fs =
     sync_one_way (path (data_right (dirs_data self))) (right_only self)
       (path (data_left (dirs_data self))) (left_only self)
       (map prod.swap (hash_diffs self)) ov add rem fs"
  by (auto simp: sync_dirs_def sync_one_way_def for_each_map Let_def split: sum.splits)

lemma sync_dirs_forward:
  "sync_dirs self (Some ov) (Some add) (Some rem) (Some False) fs =
     sync_one_way (path (data_left (dirs_data self))) (left_only self)
       (path (data_right (dirs_data self))) (right_only self)
       (hash_diffs self) ov add rem fs"
  by (auto simp: sync_dirs_def sync_one_way_def Let_def split: sum.splits)

text \<open>
  Claim C8. A call of \<open>sync_dirs\<close> that leaves \<open>reverse_direction\<close> out behaves as one
  that passes \<open>True\<close>: the right side is the source and the left side the destination.
  On the command line it is the other way round: without \<open>--reverse-sync-direction\<close>,
  \<open>main\<close> synchronises from left to right.
\<close>

theorem sync_dirs_default_direction:
  "sync_dirs self ov add rem None fs = sync_dirs self ov add rem (Some True) fs
   \<and> sync_dirs self (Some ov') (Some add') (Some rem') None fs =
       sync_one_way (path (data_right (dirs_data self))) (right_only self)
         (path (data_left (dirs_data self))) (left_only self)
         (map prod.swap (hash_diffs self)) ov' add' rem' fs
   \<and> (ReverseSyncDirection \<notin> set flags \<longrightarrow>
        main decodes md5 (prepare_args_parser l r flags) fs =
          (case FSync_init fs l r (HideProgressBar \<notin> set flags) of
             Inl e \<Rightarrow> Inl e
           | Inr fsync0 \<Rightarrow>
               (case check_differences decodes md5 fs fsync0 of
                  Inl e \<Rightarrow> Inl e
                | Inr fsync \<Rightarrow>
                    (if set flags \<inter> {AddMissing, RemoveExtra, OverwriteHash, MirrorContents} = {}
                     then Inr (fsync, fs)
                     else (case sync_one_way
                                  (path (data_left (dirs_data fsync))) (left_only fsync)
                                  (path (data_right (dirs_data fsync))) (right_only fsync)
                                  (hash_diffs fsync)
                                  (MirrorContents \<in> set flags \<or> OverwriteHash \<in> set flags)
                                  (MirrorContents \<in> set flags \<or> AddMissing \<in> set flags)
                                  (MirrorContents \<in> set flags \<or> RemoveExtra \<in> set flags) fs of
                             Inl e \<Rightarrow> Inl e
                           | Inr fs' \<Rightarrow> Inr (fsync, fs'))))))"
proof (intro conjI impI)
  show "sync_dirs self ov add rem None fs = sync_dirs self ov add rem (Some True) fs"
    by (simp add: sync_dirs_def)
  then show "sync_dirs self (Some ov') (Some add') (Some rem') None fs =
       sync_one_way (path (data_right (dirs_data self))) (right_only self)
         (path (data_left (dirs_data self))) (left_only self)
         (map prod.swap (hash_diffs self)) ov' add' rem' fs"
    by (simp add: sync_dirs_def sync_dirs_reverse [symmetric])
next
  assume "ReverseSyncDirection \<notin> set flags"
  then show "main decodes md5 (prepare_args_parser l r flags) fs =
          (case FSync_init fs l r (HideProgressBar \<notin> set flags) of
             Inl e \<Rightarrow> Inl e
           | Inr fsync0 \<Rightarrow>
               (case check_differences decodes md5 fs fsync0 of
                  Inl e \<Rightarrow> Inl e
                | Inr fsync \<Rightarrow>
                    (if set flags \<inter> {AddMissing, RemoveExtra, OverwriteHash, MirrorContents} = {}
                     then Inr (fsync, fs)
                     else (case sync_one_way
                                  (path (data_left (dirs_data fsync))) (left_only fsync)
                                  (path (data_right (dirs_data fsync))) (right_only fsync)
                                  (hash_diffs fsync)
                                  (MirrorContents \<in> set flags \<or> OverwriteHash \<in> set flags)
                                  (MirrorContents \<in> set flags \<or> AddMissing \<in> set flags)
                                  (MirrorContents \<in> set flags \<or> RemoveExtra \<in> set flags) fs of
                             Inl e \<Rightarrow> Inl e
                           | Inr fs' \<Rightarrow> Inr (fsync, fs')))))"
    by (auto simp: main_def prepare_args_parser_def sync_dirs_forward Let_def
        split: sum.splits)
qed

theorem sync_dirs_default_direction_witness:
  "ReverseSyncDirection \<notin> set [AddMissing, HideProgressBar]
   \<and> main (\<lambda>bs. True) (\<lambda>bs. bs) (prepare_args_parser [''L''] [''R''] [AddMissing, HideProgressBar])
       (Dir [(''L'', Dir [(''a'', File [1])]), (''R'', Dir [])])
     = Inr (\<lparr>dirs_data = \<lparr>data_left = \<lparr>path = [''L''], diff = [[''L'', ''a'']]\<rparr>,
                           data_right = \<lparr>path = [''R''], diff = []\<rparr>, hash_diff = []\<rparr>,
              progress_bar = False\<rparr>,
            Dir [(''L'', Dir [(''a'', File [1])]), (''R'', Dir [(''a'', File [1])])])
   \<and> sync_dirs \<lparr>dirs_data = \<lparr>data_left = \<lparr>path = [''L''], diff = [[''L'', ''a'']]\<rparr>,
                           data_right = \<lparr>path = [''R''], diff = []\<rparr>, hash_diff = []\<rparr>,
              progress_bar = False\<rparr> (Some False) (Some True) (Some False) None
       (Dir [(''L'', Dir [(''a'', File [1])]), (''R'', Dir [])])
     = Inr (Dir [(''L'', Dir [(''a'', File [1])]), (''R'', Dir [])])"
  using sync_dirs_default_direction
          [of "\<lparr>dirs_data = \<lparr>data_left = \<lparr>path = [''L''], diff = [[''L'', ''a'']]\<rparr>,
                           data_right = \<lparr>path = [''R''], diff = []\<rparr>, hash_diff = []\<rparr>,
              progress_bar = False\<rparr>" "Some False" "Some True" "Some False"
              "Dir [(''L'', Dir [(''a'', File [1])]), (''R'', Dir [])]"
              False True False "[AddMissing, HideProgressBar]"
              "\<lambda>bs. True" "\<lambda>bs. bs" "[''L'']" "[''R'']"]
  by (simp add: eval_defs)

text \<open>
  Claim C6, at an input where it fails. The left root holds a regular file \<open>x\<close> and the
  right root a directory \<open>x\<close> (or the other way round). The comparison puts \<open>x\<close> on both
  \<open>-only\<close> lists; the mirror synchronisation then copies before it removes, and the copy
  raises: \<open>copyfile\<close> onto a directory, or \<open>rmtree\<close> of a regular file.
\<close>

theorem mirror_raises_on_kind_conflict:
  "main (\<lambda>bs. True) (\<lambda>bs. bs) (prepare_args_parser [''L''] [''R''] [MirrorContents])
     (Dir [(''L'', Dir [(''x'', File [1])]), (''R'', Dir [(''x'', Dir [])])])
     = Inl IsADirectoryError
   \<and> main (\<lambda>bs. True) (\<lambda>bs. bs) (prepare_args_parser [''L''] [''R''] [MirrorContents])
     (Dir [(''L'', Dir [(''x'', Dir [])]), (''R'', Dir [(''x'', File [1])])])
     = Inl NotADirectoryError"
  by (simp add: eval_defs)

section \<open>Both directions of a comparison\<close>

lemma fst_are_files_equal:
  "fst (are_files_equal decodes md5 l r) = verdict decodes md5 (snd l) (snd r)"
  by (simp add: are_files_equal_def verdict_def is_file_text_def Let_def)

lemma verdict_iff:
  "verdict decodes md5 a b \<longleftrightarrow>
     length a = length b \<and> ((\<not> decodes a \<and> 1000000 < length a) \<or> md5 a = md5 b)"
  by (simp add: are_files_equal_def verdict_def is_file_text_def Let_def)

lemma same_classification_sym_on:
  assumes "same_classification decodes L R"
  shows "sym_on decodes md5 L R"
  unfolding sym_on_def
proof (intro allI impI)
  fix p a b
  assume f: "lookup L p = Some (File a) \<and> lookup R p = Some (File b)"
  have "length a = length b \<Longrightarrow> 1000000 < length a \<Longrightarrow> decodes a = decodes b"
    using assms f unfolding same_classification_def by blast
  then show "verdict decodes md5 a b = verdict decodes md5 b a"
    unfolding verdict_iff by (cases "length a = length b") auto
qed

lemma wf_children_member: "wf_children cs \<Longrightarrow> (n, c) \<in> set cs \<Longrightarrow> wf_node c"
  by (induction cs) auto

lemma swap_left_diff_append [simp]:
  "swap_sides (left_diff_append p s) = right_diff_append p (swap_sides s)"
  by (simp add: swap_sides_def left_diff_append_def right_diff_append_def)

lemma swap_right_diff_append [simp]:
  "swap_sides (right_diff_append p s) = left_diff_append p (swap_sides s)"
  by (simp add: swap_sides_def left_diff_append_def right_diff_append_def)

lemma swap_hash_diff_append [simp]:
  "swap_sides (hash_diff_append (p, q) s) = hash_diff_append (q, p) (swap_sides s)"
  by (simp add: swap_sides_def hash_diff_append_def)

lemma swap_fold_left [simp]:
  "swap_sides (fold left_diff_append ps s) = fold right_diff_append ps (swap_sides s)"
  by (induction ps arbitrary: s) auto

lemma swap_fold_right [simp]:
  "swap_sides (fold right_diff_append ps s) = fold left_diff_append ps (swap_sides s)"
  by (induction ps arbitrary: s) auto

lemma Path_of_less [simp]: "Path_of a < Path_of b \<longleftrightarrow> a < b"
  by (simp add: Path_of_def)

lemma compare_subfiles_loop_Nil_left:
  "compare_subfiles_loop decodes md5 [] rs s = fold right_diff_append (map fst rs) s"
  by (cases rs) auto

lemma compare_subdirs_loop_Nil_left:
  "compare_subdirs_loop [] rs ns s = (ns, fold right_diff_append (map fst rs) s)"
  by (cases rs) auto

lemma compare_subfiles_loop_mirror:
  assumes "\<forall>l \<in> set ls. \<forall>r \<in> set rs. Path_name (fst l) = Path_name (fst r)
             \<longrightarrow> verdict decodes md5 (snd l) (snd r) = verdict decodes md5 (snd r) (snd l)"
  shows "swap_sides (compare_subfiles_loop decodes md5 ls rs s)
           = compare_subfiles_loop decodes md5 rs ls (swap_sides s)"
  using assms
proof (induction decodes md5 ls rs s rule: compare_subfiles_loop.induct)
  case (1 decodes md5 l ls r rs self)
  let ?sym = "\<lambda>ls rs. \<forall>l \<in> set ls. \<forall>r \<in> set rs. Path_name (fst l) = Path_name (fst r)
             \<longrightarrow> verdict decodes md5 (snd l) (snd r) = verdict decodes md5 (snd r) (snd l)"
  have p1: "?sym ls rs" and p2: "?sym ls (r # rs)" and p3: "?sym (l # ls) rs"
    using "1.prems" by auto
  consider (eq) "Path_name (fst l) = Path_name (fst r)"
    | (lt) "Path_name (fst l) < Path_name (fst r)"
    | (gt) "Path_name (fst r) < Path_name (fst l)"
    by (rule linorder_cases)
  then show ?case
  proof cases
    case eq
    have v: "verdict decodes md5 (snd l) (snd r) = verdict decodes md5 (snd r) (snd l)"
      using "1.prems" eq by simp
    show ?thesis
      using "1.IH"(1) [OF eq p1] eq v by (simp add: fst_are_files_equal)
  next
    case lt
    then have ne: "Path_name (fst l) \<noteq> Path_name (fst r)"
      and ng: "\<not> Path_name (fst r) < Path_name (fst l)"
      by auto
    have lt': "Path_of (Path_name (fst l)) < Path_of (Path_name (fst r))"
      using lt by simp
    show ?thesis
      using "1.IH"(2) [OF ne lt' p2] ne ng lt by simp
  next
    case gt
    then have ne: "Path_name (fst l) \<noteq> Path_name (fst r)"
      and ng: "\<not> Path_name (fst l) < Path_name (fst r)"
      by auto
    have ng': "\<not> Path_of (Path_name (fst l)) < Path_of (Path_name (fst r))"
      using ng by simp
    show ?thesis
      using "1.IH"(3) [OF ne ng' p3] ne ng gt by simp
  qed
next
  case (2 decodes md5 ls self)
  then show ?case by (simp add: compare_subfiles_loop_Nil_left)
next
  case (3 decodes md5 r rs self)
  then show ?case by simp
qed

lemma compare_subdirs_loop_mirror:
  "compare_subdirs_loop rs ls (map prod.swap ns) (swap_sides s)
     = (map prod.swap (fst (compare_subdirs_loop ls rs ns s)),
        swap_sides (snd (compare_subdirs_loop ls rs ns s)))"
proof (induction ls rs ns s rule: compare_subdirs_loop.induct)
  case (1 l ls r rs next_subdirs self)
  consider (eq) "Path_name (fst l) = Path_name (fst r)"
    | (lt) "Path_name (fst l) < Path_name (fst r)"
    | (gt) "Path_name (fst r) < Path_name (fst l)"
    by (rule linorder_cases)
  then show ?case
  proof cases
    case eq
    then show ?thesis using "1.IH"(1) by simp
  next
    case lt
    then have ne: "Path_name (fst l) \<noteq> Path_name (fst r)"
      and ng: "\<not> Path_name (fst r) < Path_name (fst l)"
      by auto
    have lt': "Path_of (Path_name (fst l)) < Path_of (Path_name (fst r))"
      using lt by simp
    show ?thesis
      using "1.IH"(2) [OF ne lt'] ne ng lt by simp
  next
    case gt
    then have ne: "Path_name (fst l) \<noteq> Path_name (fst r)"
      and ng: "\<not> Path_name (fst l) < Path_name (fst r)"
      by auto
    have ng': "\<not> Path_of (Path_name (fst l)) < Path_of (Path_name (fst r))"
      using ng by simp
    show ?thesis
      using "1.IH"(3) [OF ne ng'] ne ng gt by simp
  qed
next
  case (2 ls next_subdirs self)
  then show ?case by (simp add: compare_subdirs_loop_Nil_left)
next
  case (3 r rs next_subdirs self)
  then show ?case by simp
qed

lemma Path_name_snoc [simp]: "Path_name (p @ [n]) = n"
  by (simp add: Path_name_def)

lemma set_listing:
  "(p, c) \<in> set (sorted_paths (iterdir d)) \<longleftrightarrow> (\<exists>n. p = fst d @ [n] \<and> (n, c) \<in> set (snd d))"
  by (auto simp: sorted_paths_def iterdir_def)

lemma files_in_iff: "(p, a) \<in> set (files_in xs) \<longleftrightarrow> (p, File a) \<in> set xs"
  by (induction xs rule: files_in.induct) auto

lemma dirs_in_iff: "(p, cs) \<in> set (dirs_in xs) \<longleftrightarrow> (p, Dir cs) \<in> set xs"
  by (induction xs rule: dirs_in.induct) auto

lemma lookup_child:
  "distinct (map fst cs) \<Longrightarrow> (n, c) \<in> set cs \<Longrightarrow> lookup (Dir cs) (n # p) = lookup c p"
  by simp

lemma sym_on_child:
  assumes "sym_on decodes md5 (Dir lcs) (Dir rcs)"
    and "distinct (map fst lcs)" and "distinct (map fst rcs)"
    and "(n, cl) \<in> set lcs" and "(n, cr) \<in> set rcs"
  shows "sym_on decodes md5 cl cr"
  unfolding sym_on_def
proof (intro allI impI)
  fix p a b
  assume "lookup cl p = Some (File a) \<and> lookup cr p = Some (File b)"
  then have "lookup (Dir lcs) (n # p) = Some (File a) \<and> lookup (Dir rcs) (n # p) = Some (File b)"
    using assms(2-5) by simp
  then show "verdict decodes md5 a b = verdict decodes md5 b a"
    using assms(1) unfolding sym_on_def by blast
qed

lemma next_subdirs_subset:
  "(l, r) \<in> set (fst (compare_subdirs_loop ls rs ns s)) \<Longrightarrow>
     (l, r) \<in> set ns \<or> (l \<in> set ls \<and> r \<in> set rs \<and> Path_name (fst l) = Path_name (fst r))"
  by (induction ls rs ns s rule: compare_subdirs_loop.induct) (auto split: if_splits)

lemma good_dir_files:
  assumes "good_dir decodes md5 l r"
    and "x \<in> set (files_in (sorted_paths (iterdir l)))"
    and "y \<in> set (files_in (sorted_paths (iterdir r)))"
    and "Path_name (fst x) = Path_name (fst y)"
  shows "verdict decodes md5 (snd x) (snd y) = verdict decodes md5 (snd y) (snd x)"
proof -
  obtain n where n: "fst x = fst l @ [n]" "(n, File (snd x)) \<in> set (snd l)"
    using assms(2) files_in_iff [of "fst x" "snd x"] set_listing [of "fst x" "File (snd x)" l]
    by auto
  obtain n' where n': "fst y = fst r @ [n']" "(n', File (snd y)) \<in> set (snd r)"
    using assms(3) files_in_iff [of "fst y" "snd y"] set_listing [of "fst y" "File (snd y)" r]
    by auto
  have "n = n'" using assms(4) n(1) n'(1) by simp
  then have "lookup (Dir (snd l)) [n] = Some (File (snd x))"
    and "lookup (Dir (snd r)) [n] = Some (File (snd y))"
    using n n' assms(1) by (simp_all add: good_dir_def)
  then show ?thesis
    using assms(1) unfolding good_dir_def sym_on_def by blast
qed

lemma good_dir_subdirs:
  assumes "good_dir decodes md5 l r"
    and "x \<in> set (dirs_in (sorted_paths (iterdir l)))"
    and "y \<in> set (dirs_in (sorted_paths (iterdir r)))"
    and "Path_name (fst x) = Path_name (fst y)"
  shows "good_dir decodes md5 x y"
proof -
  obtain n where n: "fst x = fst l @ [n]" "(n, Dir (snd x)) \<in> set (snd l)"
    using assms(2) dirs_in_iff [of "fst x" "snd x"] set_listing [of "fst x" "Dir (snd x)" l]
    by auto
  obtain n' where n': "fst y = fst r @ [n']" "(n', Dir (snd y)) \<in> set (snd r)"
    using assms(3) dirs_in_iff [of "fst y" "snd y"] set_listing [of "fst y" "Dir (snd y)" r]
    by auto
  have e: "n = n'" using assms(4) n(1) n'(1) by simp
  have d: "distinct (map fst (snd l))" "distinct (map fst (snd r))"
    and w: "wf_children (snd l)" "wf_children (snd r)"
    and s: "sym_on decodes md5 (Dir (snd l)) (Dir (snd r))"
    using assms(1) by (simp_all add: good_dir_def)
  have "wf_node (Dir (snd x))" "wf_node (Dir (snd y))"
    using wf_children_member [OF w(1) n(2)] wf_children_member [OF w(2) n'(2)] by simp_all
  moreover have "sym_on decodes md5 (Dir (snd x)) (Dir (snd y))"
    using sym_on_child [OF s d n(2)] n'(2) e by simp
  ultimately show ?thesis by (simp add: good_dir_def)
qed

lemma mirror_rec:
  shows "good_dir decodes md5 l r \<Longrightarrow>
           swap_sides (compare_dir_contents decodes md5 l r s)
             = compare_dir_contents decodes md5 r l (swap_sides s)"
    and "(\<forall>x \<in> set (dirs_in lc). \<forall>y \<in> set (dirs_in rc).
            Path_name (fst x) = Path_name (fst y) \<longrightarrow> good_dir decodes md5 x y) \<Longrightarrow>
           swap_sides (compare_subdirs decodes md5 lc rc s)
             = compare_subdirs decodes md5 rc lc (swap_sides s)"
    and "(\<forall>p \<in> set ns. good_dir decodes md5 (fst p) (snd p)) \<Longrightarrow>
           swap_sides (for_next_subdirs decodes md5 ns s)
             = for_next_subdirs decodes md5 (map prod.swap ns) (swap_sides s)"
proof (induction decodes md5 l r s and decodes md5 lc rc s and decodes md5 ns s
       rule: compare_dir_contents_compare_subdirs_for_next_subdirs.induct)
  case (1 decodes md5 l r self)
  let ?L = "sorted_paths (iterdir l)" and ?R = "sorted_paths (iterdir r)"
  have files: "swap_sides (compare_subfiles decodes md5 ?L ?R self)
                 = compare_subfiles decodes md5 ?R ?L (swap_sides self)"
    unfolding compare_subfiles_def Let_def
    by (rule compare_subfiles_loop_mirror) (use good_dir_files [OF "1.prems"] in blast)
  have "\<forall>x \<in> set (dirs_in ?L). \<forall>y \<in> set (dirs_in ?R).
            Path_name (fst x) = Path_name (fst y) \<longrightarrow> good_dir decodes md5 x y"
    using good_dir_subdirs [OF "1.prems"] by blast
  from "1.IH" [OF this] files show ?case
    by (simp del: compare_subdirs.simps)
next
  case (2 decodes md5 lc rc self)
  let ?X = "compare_subdirs_loop (dirs_in lc) (dirs_in rc) [] self"
  have "\<forall>p \<in> set (fst ?X). good_dir decodes md5 (fst p) (snd p)"
  proof
    fix p assume "p \<in> set (fst ?X)"
    then have "(fst p, snd p) \<in> set (fst ?X)" by simp
    from next_subdirs_subset [OF this] "2.prems" show "good_dir decodes md5 (fst p) (snd p)"
      by auto
  qed
  from "2.IH" [OF this]
    compare_subdirs_loop_mirror [of "dirs_in rc" "dirs_in lc" "[]" self]
  show ?case by simp
next
  case (3 decodes md5 self)
  show ?case by simp
next
  case (4 decodes md5 dir_entry next_subdirs self)
  have a: "good_dir decodes md5 (fst dir_entry) (snd dir_entry)"
    and b: "\<forall>p \<in> set next_subdirs. good_dir decodes md5 (fst p) (snd p)"
    using "4.prems" by simp_all
  from "4.IH"(1) [OF a] "4.IH"(2) [OF b] show ?case
    by (simp del: compare_dir_contents.simps)
qed

section \<open>The merges on strictly sorted names\<close>

lemma fields_left_diff_append [simp]:
  "left_only (left_diff_append p s) = left_only s @ [p]"
  "right_only (left_diff_append p s) = right_only s"
  "hash_diffs (left_diff_append p s) = hash_diffs s"
  "path (data_left (dirs_data (left_diff_append p s))) = path (data_left (dirs_data s))"
  "path (data_right (dirs_data (left_diff_append p s))) = path (data_right (dirs_data s))"
  "progress_bar (left_diff_append p s) = progress_bar s"
  by (simp_all add: left_diff_append_def)

lemma fields_right_diff_append [simp]:
  "left_only (right_diff_append p s) = left_only s"
  "right_only (right_diff_append p s) = right_only s @ [p]"
  "hash_diffs (right_diff_append p s) = hash_diffs s"
  "path (data_left (dirs_data (right_diff_append p s))) = path (data_left (dirs_data s))"
  "path (data_right (dirs_data (right_diff_append p s))) = path (data_right (dirs_data s))"
  "progress_bar (right_diff_append p s) = progress_bar s"
  by (simp_all add: right_diff_append_def)

lemma fields_hash_diff_append [simp]:
  "left_only (hash_diff_append pq s) = left_only s"
  "right_only (hash_diff_append pq s) = right_only s"
  "hash_diffs (hash_diff_append pq s) = hash_diffs s @ [pq]"
  "path (data_left (dirs_data (hash_diff_append pq s))) = path (data_left (dirs_data s))"
  "path (data_right (dirs_data (hash_diff_append pq s))) = path (data_right (dirs_data s))"
  "progress_bar (hash_diff_append pq s) = progress_bar s"
  by (simp_all add: hash_diff_append_def)

lemma fields_fold_left [simp]:
  "left_only (fold left_diff_append ps s) = left_only s @ ps"
  "right_only (fold left_diff_append ps s) = right_only s"
  "hash_diffs (fold left_diff_append ps s) = hash_diffs s"
  by (induction ps arbitrary: s) simp_all

lemma fields_fold_right [simp]:
  "left_only (fold right_diff_append ps s) = left_only s"
  "right_only (fold right_diff_append ps s) = right_only s @ ps"
  "hash_diffs (fold right_diff_append ps s) = hash_diffs s"
  by (induction ps arbitrary: s) simp_all

lemma unmatched_Nil [simp]: "unmatched ls [] = set ls" "unmatched [] rs = {}"
  by (auto simp: unmatched_def)

lemma matched_Nil [simp]: "matched ls [] = {}" "matched [] rs = {}"
  by (auto simp: matched_def)

lemma merge_step_eq:
  assumes "entry_name l = entry_name r"
    and "\<forall>x \<in> set ls. entry_name l < entry_name x"
    and "\<forall>y \<in> set rs. entry_name r < entry_name y"
  shows "unmatched (l # ls) (r # rs) = unmatched ls rs"
    and "unmatched (r # rs) (l # ls) = unmatched rs ls"
    and "matched (l # ls) (r # rs) = insert (l, r) (matched ls rs)"
  using assms by (auto simp: unmatched_def matched_def)

lemma merge_step_lt:
  assumes "entry_name l < entry_name r"
    and "\<forall>y \<in> set rs. entry_name r < entry_name y"
  shows "unmatched (l # ls) (r # rs) = insert l (unmatched ls (r # rs))"
    and "unmatched (r # rs) (l # ls) = unmatched (r # rs) ls"
    and "matched (l # ls) (r # rs) = matched ls (r # rs)"
  using assms by (fastforce simp: unmatched_def matched_def)+

lemma merge_step_gt:
  assumes "entry_name r < entry_name l"
    and "\<forall>x \<in> set ls. entry_name l < entry_name x"
  shows "unmatched (l # ls) (r # rs) = unmatched (l # ls) rs"
    and "unmatched (r # rs) (l # ls) = insert r (unmatched rs (l # ls))"
    and "matched (l # ls) (r # rs) = matched (l # ls) rs"
  using assms by (fastforce simp: unmatched_def matched_def)+

lemma differing_empty [simp]: "differing decodes md5 {} = {}"
  by (simp add: differing_def)

lemma differing_insert:
  "differing decodes md5 (insert (l, r) M) =
     (if \<not> verdict decodes md5 (snd l) (snd r)
      then insert (fst l, fst r) (differing decodes md5 M) else differing decodes md5 M)"
  by (cases l; cases r) (auto simp: differing_def)

lemma compare_subfiles_loop_sets:
  assumes "sorted_wrt (<) (map entry_name ls)" and "sorted_wrt (<) (map entry_name rs)"
  shows "set (left_only (compare_subfiles_loop decodes md5 ls rs s))
           = set (left_only s) \<union> fst ` unmatched ls rs
       \<and> set (right_only (compare_subfiles_loop decodes md5 ls rs s))
           = set (right_only s) \<union> fst ` unmatched rs ls
       \<and> set (hash_diffs (compare_subfiles_loop decodes md5 ls rs s))
           = set (hash_diffs s) \<union> differing decodes md5 (matched ls rs)"
  using assms
proof (induction decodes md5 ls rs s rule: compare_subfiles_loop.induct)
  case (1 decodes md5 l ls r rs self)
  have sl: "sorted_wrt (<) (map entry_name ls)" and sr: "sorted_wrt (<) (map entry_name rs)"
    and gl: "\<forall>x \<in> set ls. entry_name l < entry_name x"
    and gr: "\<forall>y \<in> set rs. entry_name r < entry_name y"
    using "1.prems" by auto
  consider (eq) "entry_name l = entry_name r"
    | (lt) "entry_name l < entry_name r"
    | (gt) "entry_name r < entry_name l"
    by (rule linorder_cases)
  then show ?case
  proof cases
    case eq
    show ?thesis
      using "1.IH"(1) [OF eq sl sr] eq
      by (simp add: merge_step_eq [OF eq gl gr] differing_insert fst_are_files_equal)
  next
    case lt
    then have ne: "entry_name l \<noteq> entry_name r" by auto
    have lt': "Path_of (entry_name l) < Path_of (entry_name r)" using lt by simp
    show ?thesis
      using "1.IH"(2) [OF ne lt' sl "1.prems"(2)] ne lt
      by (simp add: merge_step_lt [OF lt gr])
  next
    case gt
    then have ne: "entry_name l \<noteq> entry_name r" and ng: "\<not> entry_name l < entry_name r"
      by auto
    have ng': "\<not> Path_of (entry_name l) < Path_of (entry_name r)" using ng by simp
    show ?thesis
      using "1.IH"(3) [OF ne ng' "1.prems"(1) sr] ne ng
      by (simp add: merge_step_gt [OF gt gl])
  qed
next
  case (2 decodes md5 ls self)
  show ?case by simp
next
  case (3 decodes md5 r rs self)
  show ?case by simp
qed

lemma compare_subdirs_loop_sets:
  assumes "sorted_wrt (<) (map entry_name ls)" and "sorted_wrt (<) (map entry_name rs)"
  shows "set (left_only (snd (compare_subdirs_loop ls rs ns s)))
           = set (left_only s) \<union> fst ` unmatched ls rs
       \<and> set (right_only (snd (compare_subdirs_loop ls rs ns s)))
           = set (right_only s) \<union> fst ` unmatched rs ls
       \<and> hash_diffs (snd (compare_subdirs_loop ls rs ns s)) = hash_diffs s
       \<and> set (fst (compare_subdirs_loop ls rs ns s)) = set ns \<union> matched ls rs"
  using assms
proof (induction ls rs ns s rule: compare_subdirs_loop.induct)
  case (1 l ls r rs ns self)
  have sl: "sorted_wrt (<) (map entry_name ls)" and sr: "sorted_wrt (<) (map entry_name rs)"
    and gl: "\<forall>x \<in> set ls. entry_name l < entry_name x"
    and gr: "\<forall>y \<in> set rs. entry_name r < entry_name y"
    using "1.prems" by auto
  consider (eq) "entry_name l = entry_name r"
    | (lt) "entry_name l < entry_name r"
    | (gt) "entry_name r < entry_name l"
    by (rule linorder_cases)
  then show ?case
  proof cases
    case eq
    show ?thesis
      using "1.IH"(1) [OF eq sl sr] eq
      by (simp add: merge_step_eq [OF eq gl gr])
  next
    case lt
    then have ne: "entry_name l \<noteq> entry_name r" by auto
    have lt': "Path_of (entry_name l) < Path_of (entry_name r)" using lt by simp
    show ?thesis
      using "1.IH"(2) [OF ne lt' sl "1.prems"(2)] ne lt
      by (simp add: merge_step_lt [OF lt gr])
  next
    case gt
    then have ne: "entry_name l \<noteq> entry_name r" and ng: "\<not> entry_name l < entry_name r"
      by auto
    have ng': "\<not> Path_of (entry_name l) < Path_of (entry_name r)" using ng by simp
    show ?thesis
      using "1.IH"(3) [OF ne ng' "1.prems"(1) sr] ne ng
      by (simp add: merge_step_gt [OF gt gl])
  qed
next
  case (2 ls ns self)
  show ?case by simp
next
  case (3 r rs ns self)
  show ?case by simp
qed

section \<open>Sorted listings\<close>

lemma snoc_le_snoc: "p @ [a] \<le> p @ [b] \<longleftrightarrow> a \<le> (b :: 'a :: linorder)"
  by (induction p) auto

lemma entry_names_iterdir: "map entry_name (iterdir d) = map fst (snd d)"
  by (simp add: iterdir_def case_prod_beta comp_def)

lemma listing_path: "x \<in> set (sorted_paths (iterdir d)) \<Longrightarrow> fst x = fst d @ [entry_name x]"
  by (auto simp: sorted_paths_def iterdir_def)

lemma sorted_names_listing:
  assumes "distinct (map fst (snd d))"
  shows "sorted_wrt (<) (map entry_name (sorted_paths (iterdir d)))"
proof -
  let ?L = "sorted_paths (iterdir d)"
  have "sorted (map fst ?L)"
    by (simp add: sorted_paths_def)
  then have "sorted_wrt (\<lambda>x y. fst x \<le> fst y) ?L"
    by (simp add: sorted_map)
  then have "sorted_wrt (\<lambda>x y. entry_name x \<le> entry_name y) ?L"
  proof (rule sorted_wrt_mono_rel [rotated])
    fix x y
    assume "x \<in> set ?L" "y \<in> set ?L" "fst x \<le> fst y"
    then show "entry_name x \<le> entry_name y"
      using listing_path [of x d] listing_path [of y d] snoc_le_snoc [of "fst d"] by metis
  qed
  then have s: "sorted (map entry_name ?L)"
    by (simp add: sorted_map)
  have "mset (map entry_name ?L) = mset (map entry_name (iterdir d))"
    by (simp add: sorted_paths_def)
  then have "distinct (map entry_name ?L) \<longleftrightarrow> distinct (map entry_name (iterdir d))"
    by (rule mset_eq_imp_distinct_iff)
  then have "distinct (map entry_name ?L)"
    using assms by (simp add: entry_names_iterdir)
  with s show ?thesis
    by (simp add: strict_sorted_iff)
qed

lemma files_in_names: "entry_name ` set (files_in xs) \<subseteq> entry_name ` set xs"
  by (induction xs rule: files_in.induct) auto

lemma dirs_in_names: "entry_name ` set (dirs_in xs) \<subseteq> entry_name ` set xs"
  by (induction xs rule: dirs_in.induct) auto

lemma sorted_names_files_in:
  "sorted_wrt (<) (map entry_name xs) \<Longrightarrow> sorted_wrt (<) (map entry_name (files_in xs))"
proof (induction xs rule: files_in.induct)
  case (2 p bs xs)
  then show ?case by (fastforce simp: files_in_iff)
qed auto

lemma sorted_names_dirs_in:
  "sorted_wrt (<) (map entry_name xs) \<Longrightarrow> sorted_wrt (<) (map entry_name (dirs_in xs))"
proof (induction xs rule: dirs_in.induct)
  case (2 p cs xs)
  then show ?case by (fastforce simp: dirs_in_iff)
qed auto

lemma files_in_listing:
  assumes "distinct (map fst (snd d))"
  shows "x \<in> set (files_in (sorted_paths (iterdir d)))
           \<longleftrightarrow> (\<exists>n. fst x = fst d @ [n] \<and> map_of (snd d) n = Some (File (snd x)))"
  using assms files_in_iff [of "fst x" "snd x"] set_listing [of "fst x" "File (snd x)" d]
  by (auto dest: map_of_SomeD)

lemma dirs_in_listing:
  assumes "distinct (map fst (snd d))"
  shows "x \<in> set (dirs_in (sorted_paths (iterdir d)))
           \<longleftrightarrow> (\<exists>n. fst x = fst d @ [n] \<and> map_of (snd d) n = Some (Dir (snd x)))"
  using assms dirs_in_iff [of "fst x" "snd x"] set_listing [of "fst x" "Dir (snd x)" d]
  by (auto dest: map_of_SomeD)

section \<open>Paths into the two trees\<close>

lemma differs_iff:
  "differs decodes md5 A B p \<longleftrightarrow>
     (\<exists>a b. lookup A p = Some (File a) \<and> lookup B p = Some (File b)
           \<and> \<not> verdict decodes md5 a b)"
  by (cases "lookup A p"; cases "lookup B p")
     (auto simp: differs_def split: node.splits)

lemma Path_is_dir_Nil [simp]: "Path_is_dir c [] \<longleftrightarrow> (\<exists>cs. c = Dir cs)"
  by (cases c) (simp_all add: Path_is_dir_def)

lemma Path_is_file_Nil [simp]: "Path_is_file c [] \<longleftrightarrow> (\<exists>bs. c = File bs)"
  by (cases c) (simp_all add: Path_is_file_def)

lemma lookup_Cons_Some: "lookup c (n # p) = Some v \<Longrightarrow> \<exists>cs. c = Dir cs"
  by (cases c) simp_all

lemma lookup_Dir_Cons:
  "lookup (Dir cs) (n # p) = Some v \<longleftrightarrow> (\<exists>c. map_of cs n = Some c \<and> lookup c p = Some v)"
  by (simp split: option.splits)

lemma Path_is_dir_Cons:
  "Path_is_dir (Dir cs) (n # p) \<longleftrightarrow> (\<exists>c. map_of cs n = Some c \<and> Path_is_dir c p)"
  by (auto simp: Path_is_dir_def split: option.splits)

lemma Path_is_file_Cons:
  "Path_is_file (Dir cs) (n # p) \<longleftrightarrow> (\<exists>c. map_of cs n = Some c \<and> Path_is_file c p)"
  by (auto simp: Path_is_file_def split: option.splits)

lemma Path_is_dir_imp_Dir: "Path_is_dir c p \<Longrightarrow> \<exists>cs. c = Dir cs"
  by (cases c; cases p) (simp_all add: Path_is_dir_def)

lemma only_in_Nil [simp]: "\<not> only_in A B []"
  by (simp add: only_in_def)

lemma only_in_single:
  "only_in (Dir lcs) (Dir rcs) [n] \<longleftrightarrow>
     (\<exists>a. map_of lcs n = Some (File a)) \<and> \<not> (\<exists>b. map_of rcs n = Some (File b))
     \<or> (\<exists>c. map_of lcs n = Some (Dir c)) \<and> \<not> (\<exists>c. map_of rcs n = Some (Dir c))"
  by (auto simp: only_in_def Path_is_dir_Cons Path_is_file_Cons)

lemma only_in_Cons:
  assumes "p \<noteq> []"
  shows "only_in (Dir lcs) (Dir rcs) (n # p) \<longleftrightarrow>
     (\<exists>cl cr. map_of lcs n = Some (Dir cl) \<and> map_of rcs n = Some (Dir cr)
             \<and> only_in (Dir cl) (Dir cr) p)"
proof
  assume o: "only_in (Dir lcs) (Dir rcs) (n # p)"
  then have "Path_is_dir (Dir lcs) (n # butlast p)" "Path_is_dir (Dir rcs) (n # butlast p)"
    using assms by (simp_all add: only_in_def)
  then obtain cl cr where c: "map_of lcs n = Some (Dir cl)" "map_of rcs n = Some (Dir cr)"
    using Path_is_dir_imp_Dir by (fastforce simp: Path_is_dir_Cons)
  then have "only_in (Dir cl) (Dir cr) p"
    using o assms by (simp add: only_in_def Path_is_dir_Cons Path_is_file_Cons)
  with c show "\<exists>cl cr. map_of lcs n = Some (Dir cl) \<and> map_of rcs n = Some (Dir cr)
             \<and> only_in (Dir cl) (Dir cr) p" by blast
next
  assume "\<exists>cl cr. map_of lcs n = Some (Dir cl) \<and> map_of rcs n = Some (Dir cr)
             \<and> only_in (Dir cl) (Dir cr) p"
  then show "only_in (Dir lcs) (Dir rcs) (n # p)"
    using assms by (auto simp: only_in_def Path_is_dir_Cons Path_is_file_Cons)
qed

lemma differs_Nil [simp]: "\<not> differs decodes md5 (Dir lcs) (Dir rcs) []"
  by (simp add: differs_def)

lemma differs_single:
  "differs decodes md5 (Dir lcs) (Dir rcs) [n] \<longleftrightarrow>
     (\<exists>a b. map_of lcs n = Some (File a) \<and> map_of rcs n = Some (File b)
           \<and> \<not> verdict decodes md5 a b)"
  by (auto simp: differs_iff split: option.splits)

lemma differs_Cons:
  assumes "p \<noteq> []"
  shows "differs decodes md5 (Dir lcs) (Dir rcs) (n # p) \<longleftrightarrow>
     (\<exists>cl cr. map_of lcs n = Some (Dir cl) \<and> map_of rcs n = Some (Dir cr)
             \<and> differs decodes md5 (Dir cl) (Dir cr) p)"
proof
  assume "differs decodes md5 (Dir lcs) (Dir rcs) (n # p)"
  then obtain a b cl cr where l: "map_of lcs n = Some cl" "lookup cl p = Some (File a)"
    and r: "map_of rcs n = Some cr" "lookup cr p = Some (File b)"
    and v: "\<not> verdict decodes md5 a b"
    unfolding differs_iff lookup_Dir_Cons by blast
  obtain x q where p: "p = x # q" using assms by (cases p) auto
  obtain cl' cr' where "cl = Dir cl'" "cr = Dir cr'"
    using l(2) r(2) lookup_Cons_Some unfolding p by blast
  then show "\<exists>cl cr. map_of lcs n = Some (Dir cl) \<and> map_of rcs n = Some (Dir cr)
             \<and> differs decodes md5 (Dir cl) (Dir cr) p"
    using l r v unfolding differs_iff by blast
next
  assume "\<exists>cl cr. map_of lcs n = Some (Dir cl) \<and> map_of rcs n = Some (Dir cr)
             \<and> differs decodes md5 (Dir cl) (Dir cr) p"
  then show "differs decodes md5 (Dir lcs) (Dir rcs) (n # p)"
    unfolding differs_iff lookup_Dir_Cons by blast
qed

section \<open>The listings of two directories, by name\<close>

lemma names_files_listing:
  assumes "distinct (map fst (snd d))"
  shows "n \<in> entry_name ` set (files_in (sorted_paths (iterdir d)))
           \<longleftrightarrow> (\<exists>b. map_of (snd d) n = Some (File b))"
proof
  assume "n \<in> entry_name ` set (files_in (sorted_paths (iterdir d)))"
  then obtain x where "x \<in> set (files_in (sorted_paths (iterdir d)))" "n = entry_name x"
    by blast
  then show "\<exists>b. map_of (snd d) n = Some (File b)"
    using files_in_listing [OF assms, of x] by auto
next
  assume "\<exists>b. map_of (snd d) n = Some (File b)"
  then obtain b where "map_of (snd d) n = Some (File b)" by blast
  then have "(fst d @ [n], b) \<in> set (files_in (sorted_paths (iterdir d)))"
    using files_in_listing [OF assms, of "(fst d @ [n], b)"] by simp
  then have "entry_name (fst d @ [n], b) \<in> entry_name ` set (files_in (sorted_paths (iterdir d)))"
    by (rule imageI)
  then show "n \<in> entry_name ` set (files_in (sorted_paths (iterdir d)))" by simp
qed

lemma names_dirs_listing:
  assumes "distinct (map fst (snd d))"
  shows "n \<in> entry_name ` set (dirs_in (sorted_paths (iterdir d)))
           \<longleftrightarrow> (\<exists>c. map_of (snd d) n = Some (Dir c))"
proof
  assume "n \<in> entry_name ` set (dirs_in (sorted_paths (iterdir d)))"
  then obtain x where "x \<in> set (dirs_in (sorted_paths (iterdir d)))" "n = entry_name x"
    by blast
  then show "\<exists>c. map_of (snd d) n = Some (Dir c)"
    using dirs_in_listing [OF assms, of x] by auto
next
  assume "\<exists>c. map_of (snd d) n = Some (Dir c)"
  then obtain c where "map_of (snd d) n = Some (Dir c)" by blast
  then have "(fst d @ [n], c) \<in> set (dirs_in (sorted_paths (iterdir d)))"
    using dirs_in_listing [OF assms, of "(fst d @ [n], c)"] by simp
  then have "entry_name (fst d @ [n], c) \<in> entry_name ` set (dirs_in (sorted_paths (iterdir d)))"
    by (rule imageI)
  then show "n \<in> entry_name ` set (dirs_in (sorted_paths (iterdir d)))" by simp
qed

lemma unmatched_files_listing:
  assumes "distinct (map fst (snd l))" and "distinct (map fst (snd r))"
  shows "p \<in> fst ` unmatched (files_in (sorted_paths (iterdir l)))
                             (files_in (sorted_paths (iterdir r)))
           \<longleftrightarrow> (\<exists>n. p = fst l @ [n] \<and> (\<exists>a. map_of (snd l) n = Some (File a))
                     \<and> \<not> (\<exists>b. map_of (snd r) n = Some (File b)))"
proof
  assume "p \<in> fst ` unmatched (files_in (sorted_paths (iterdir l)))
                             (files_in (sorted_paths (iterdir r)))"
  then obtain x where x: "x \<in> set (files_in (sorted_paths (iterdir l)))"
      "entry_name x \<notin> entry_name ` set (files_in (sorted_paths (iterdir r)))" "p = fst x"
    by (auto simp: unmatched_def)
  from x(1) obtain n where n: "fst x = fst l @ [n]" "map_of (snd l) n = Some (File (snd x))"
    using files_in_listing [OF assms(1), of x] by blast
  have "\<not> (\<exists>b. map_of (snd r) n = Some (File b))"
    using x(2) n(1) names_files_listing [OF assms(2), of n] by simp
  with n x(3) show "\<exists>n. p = fst l @ [n] \<and> (\<exists>a. map_of (snd l) n = Some (File a))
                     \<and> \<not> (\<exists>b. map_of (snd r) n = Some (File b))" by blast
next
  assume "\<exists>n. p = fst l @ [n] \<and> (\<exists>a. map_of (snd l) n = Some (File a))
                     \<and> \<not> (\<exists>b. map_of (snd r) n = Some (File b))"
  then obtain n a where n: "p = fst l @ [n]" "map_of (snd l) n = Some (File a)"
      "\<not> (\<exists>b. map_of (snd r) n = Some (File b))" by blast
  have "(p, a) \<in> set (files_in (sorted_paths (iterdir l)))"
    using files_in_listing [OF assms(1), of "(p, a)"] n by simp
  moreover have "entry_name (p, a) \<notin> entry_name ` set (files_in (sorted_paths (iterdir r)))"
    using names_files_listing [OF assms(2), of n] n by simp
  ultimately have "(p, a) \<in> unmatched (files_in (sorted_paths (iterdir l)))
                             (files_in (sorted_paths (iterdir r)))"
    by (simp add: unmatched_def)
  then show "p \<in> fst ` unmatched (files_in (sorted_paths (iterdir l)))
                             (files_in (sorted_paths (iterdir r)))"
    by force
qed

lemma unmatched_dirs_listing:
  assumes "distinct (map fst (snd l))" and "distinct (map fst (snd r))"
  shows "p \<in> fst ` unmatched (dirs_in (sorted_paths (iterdir l)))
                             (dirs_in (sorted_paths (iterdir r)))
           \<longleftrightarrow> (\<exists>n. p = fst l @ [n] \<and> (\<exists>c. map_of (snd l) n = Some (Dir c))
                     \<and> \<not> (\<exists>c. map_of (snd r) n = Some (Dir c)))"
proof
  assume "p \<in> fst ` unmatched (dirs_in (sorted_paths (iterdir l)))
                             (dirs_in (sorted_paths (iterdir r)))"
  then obtain x where x: "x \<in> set (dirs_in (sorted_paths (iterdir l)))"
      "entry_name x \<notin> entry_name ` set (dirs_in (sorted_paths (iterdir r)))" "p = fst x"
    by (auto simp: unmatched_def)
  from x(1) obtain n where n: "fst x = fst l @ [n]" "map_of (snd l) n = Some (Dir (snd x))"
    using dirs_in_listing [OF assms(1), of x] by blast
  have "\<not> (\<exists>c. map_of (snd r) n = Some (Dir c))"
    using x(2) n(1) names_dirs_listing [OF assms(2), of n] by simp
  with n x(3) show "\<exists>n. p = fst l @ [n] \<and> (\<exists>c. map_of (snd l) n = Some (Dir c))
                     \<and> \<not> (\<exists>c. map_of (snd r) n = Some (Dir c))" by blast
next
  assume "\<exists>n. p = fst l @ [n] \<and> (\<exists>c. map_of (snd l) n = Some (Dir c))
                     \<and> \<not> (\<exists>c. map_of (snd r) n = Some (Dir c))"
  then obtain n c where n: "p = fst l @ [n]" "map_of (snd l) n = Some (Dir c)"
      "\<not> (\<exists>c. map_of (snd r) n = Some (Dir c))" by blast
  have "(p, c) \<in> set (dirs_in (sorted_paths (iterdir l)))"
    using dirs_in_listing [OF assms(1), of "(p, c)"] n by simp
  moreover have "entry_name (p, c) \<notin> entry_name ` set (dirs_in (sorted_paths (iterdir r)))"
    using names_dirs_listing [OF assms(2), of n] n by simp
  ultimately have "(p, c) \<in> unmatched (dirs_in (sorted_paths (iterdir l)))
                             (dirs_in (sorted_paths (iterdir r)))"
    by (simp add: unmatched_def)
  then show "p \<in> fst ` unmatched (dirs_in (sorted_paths (iterdir l)))
                             (dirs_in (sorted_paths (iterdir r)))"
    by force
qed

lemma matched_dirs_listing:
  assumes "distinct (map fst (snd l))" and "distinct (map fst (snd r))"
  shows "(x, y) \<in> matched (dirs_in (sorted_paths (iterdir l))) (dirs_in (sorted_paths (iterdir r)))
           \<longleftrightarrow> (\<exists>n. fst x = fst l @ [n] \<and> fst y = fst r @ [n]
                     \<and> map_of (snd l) n = Some (Dir (snd x))
                     \<and> map_of (snd r) n = Some (Dir (snd y)))"
  unfolding matched_def using dirs_in_listing [OF assms(1), of x] dirs_in_listing [OF assms(2), of y]
  by auto

lemma matched_files_listing:
  assumes "distinct (map fst (snd l))" and "distinct (map fst (snd r))"
  shows "(x, y) \<in> matched (files_in (sorted_paths (iterdir l))) (files_in (sorted_paths (iterdir r)))
           \<longleftrightarrow> (\<exists>n. fst x = fst l @ [n] \<and> fst y = fst r @ [n]
                     \<and> map_of (snd l) n = Some (File (snd x))
                     \<and> map_of (snd r) n = Some (File (snd y)))"
  unfolding matched_def using files_in_listing [OF assms(1), of x] files_in_listing [OF assms(2), of y]
  by auto

section \<open>What the comparison adds to the lists\<close>

lemma only_paths_decomp:
  assumes dl: "distinct (map fst (snd l))" and dr: "distinct (map fst (snd r))"
  shows "only_paths l r =
           fst ` unmatched (files_in (sorted_paths (iterdir l))) (files_in (sorted_paths (iterdir r)))
         \<union> fst ` unmatched (dirs_in (sorted_paths (iterdir l))) (dirs_in (sorted_paths (iterdir r)))
         \<union> (\<Union>xy \<in> matched (dirs_in (sorted_paths (iterdir l))) (dirs_in (sorted_paths (iterdir r))).
               only_paths (fst xy) (snd xy))"
    (is "_ = ?F \<union> ?D \<union> ?M")
proof (rule set_eqI, rule iffI)
  fix p
  assume "p \<in> only_paths l r"
  then obtain q where q: "p = fst l @ q" "only_in (Dir (snd l)) (Dir (snd r)) q"
    by (auto simp: only_paths_def)
  then obtain n q' where nq: "q = n # q'" by (cases q) auto
  show "p \<in> ?F \<union> ?D \<union> ?M"
  proof (cases "q' = []")
    case True
    then have "(\<exists>a. map_of (snd l) n = Some (File a)) \<and> \<not> (\<exists>b. map_of (snd r) n = Some (File b))
       \<or> (\<exists>c. map_of (snd l) n = Some (Dir c)) \<and> \<not> (\<exists>c. map_of (snd r) n = Some (Dir c))"
      using q(2) nq only_in_single by simp
    then have "p \<in> ?F \<or> p \<in> ?D"
      using unmatched_files_listing [OF dl dr, of p] unmatched_dirs_listing [OF dl dr, of p]
        q(1) nq True by auto
    then show ?thesis by blast
  next
    case False
    then obtain cl cr where c: "map_of (snd l) n = Some (Dir cl)" "map_of (snd r) n = Some (Dir cr)"
        "only_in (Dir cl) (Dir cr) q'"
      using q(2) nq only_in_Cons by auto
    let ?x = "(fst l @ [n], cl)" and ?y = "(fst r @ [n], cr)"
    have m: "(?x, ?y) \<in> matched (dirs_in (sorted_paths (iterdir l))) (dirs_in (sorted_paths (iterdir r)))"
      using matched_dirs_listing [OF dl dr, of ?x ?y] c by simp
    have "p \<in> only_paths ?x ?y"
      using c(3) q(1) nq by (auto simp: only_paths_def)
    with m have "p \<in> ?M" by force
    then show ?thesis by blast
  qed
next
  fix p
  assume "p \<in> ?F \<union> ?D \<union> ?M"
  then consider (f) "p \<in> ?F" | (d) "p \<in> ?D" | (m) "p \<in> ?M" by blast
  then show "p \<in> only_paths l r"
  proof cases
    case f
    then obtain n where "p = fst l @ [n]" "only_in (Dir (snd l)) (Dir (snd r)) [n]"
      using unmatched_files_listing [OF dl dr, of p] only_in_single by auto
    then show ?thesis by (auto simp: only_paths_def)
  next
    case d
    then obtain n where "p = fst l @ [n]" "only_in (Dir (snd l)) (Dir (snd r)) [n]"
      using unmatched_dirs_listing [OF dl dr, of p] only_in_single by auto
    then show ?thesis by (auto simp: only_paths_def)
  next
    case m
    then obtain x y where xy:
        "(x, y) \<in> matched (dirs_in (sorted_paths (iterdir l))) (dirs_in (sorted_paths (iterdir r)))"
        "p \<in> only_paths x y"
      by auto
    from xy(1) obtain n where n: "fst x = fst l @ [n]" "fst y = fst r @ [n]"
        "map_of (snd l) n = Some (Dir (snd x))" "map_of (snd r) n = Some (Dir (snd y))"
      using matched_dirs_listing [OF dl dr, of x y] by blast
    from xy(2) obtain q where q: "p = fst x @ q" "only_in (Dir (snd x)) (Dir (snd y)) q"
      by (auto simp: only_paths_def)
    have "q \<noteq> []" using q(2) by auto
    then have "only_in (Dir (snd l)) (Dir (snd r)) (n # q)"
      using only_in_Cons [of q "snd l" "snd r" n] n(3,4) q(2) by blast
    moreover have "p = fst l @ n # q" using q(1) n(1) by simp
    ultimately show ?thesis unfolding only_paths_def by blast
  qed
qed

lemma differ_paths_decomp:
  assumes dl: "distinct (map fst (snd l))" and dr: "distinct (map fst (snd r))"
  shows "differ_paths decodes md5 l r =
           differing decodes md5
             (matched (files_in (sorted_paths (iterdir l))) (files_in (sorted_paths (iterdir r))))
         \<union> (\<Union>xy \<in> matched (dirs_in (sorted_paths (iterdir l))) (dirs_in (sorted_paths (iterdir r))).
               differ_paths decodes md5 (fst xy) (snd xy))"
    (is "_ = ?F \<union> ?M")
proof (rule set_eqI, rule iffI)
  fix pp
  assume "pp \<in> differ_paths decodes md5 l r"
  then obtain q where q: "pp = (fst l @ q, fst r @ q)"
      "differs decodes md5 (Dir (snd l)) (Dir (snd r)) q"
    by (auto simp: differ_paths_def)
  then obtain n q' where nq: "q = n # q'" by (cases q) auto
  show "pp \<in> ?F \<union> ?M"
  proof (cases "q' = []")
    case True
    then obtain a b where ab: "map_of (snd l) n = Some (File a)" "map_of (snd r) n = Some (File b)"
        "\<not> verdict decodes md5 a b"
      using q(2) nq differs_single by auto
    let ?x = "(fst l @ [n], a)" and ?y = "(fst r @ [n], b)"
    have "(?x, ?y) \<in> matched (files_in (sorted_paths (iterdir l))) (files_in (sorted_paths (iterdir r)))"
      using matched_files_listing [OF dl dr, of ?x ?y] ab by simp
    then have "(fst ?x, fst ?y) \<in> ?F"
      using ab(3) unfolding differing_def by force
    then show ?thesis using q(1) nq True by simp
  next
    case False
    then obtain cl cr where c: "map_of (snd l) n = Some (Dir cl)" "map_of (snd r) n = Some (Dir cr)"
        "differs decodes md5 (Dir cl) (Dir cr) q'"
      using q(2) nq differs_Cons by auto
    let ?x = "(fst l @ [n], cl)" and ?y = "(fst r @ [n], cr)"
    have m: "(?x, ?y) \<in> matched (dirs_in (sorted_paths (iterdir l))) (dirs_in (sorted_paths (iterdir r)))"
      using matched_dirs_listing [OF dl dr, of ?x ?y] c by simp
    have "pp \<in> differ_paths decodes md5 ?x ?y"
      using c(3) q(1) nq by (auto simp: differ_paths_def)
    with m have "pp \<in> ?M" by force
    then show ?thesis by blast
  qed
next
  fix pp
  assume "pp \<in> ?F \<union> ?M"
  then consider (f) "pp \<in> ?F" | (m) "pp \<in> ?M" by blast
  then show "pp \<in> differ_paths decodes md5 l r"
  proof cases
    case f
    then obtain x y where xy: "pp = (fst x, fst y)"
        "(x, y) \<in> matched (files_in (sorted_paths (iterdir l))) (files_in (sorted_paths (iterdir r)))"
        "\<not> verdict decodes md5 (snd x) (snd y)"
      unfolding differing_def by blast
    from xy(2) obtain n where n: "fst x = fst l @ [n]" "fst y = fst r @ [n]"
        "map_of (snd l) n = Some (File (snd x))" "map_of (snd r) n = Some (File (snd y))"
      using matched_files_listing [OF dl dr, of x y] by blast
    have "differs decodes md5 (Dir (snd l)) (Dir (snd r)) [n]"
      using differs_single n(3,4) xy(3) by blast
    then show ?thesis using xy(1) n(1,2) unfolding differ_paths_def by blast
  next
    case m
    then obtain x y where xy:
        "(x, y) \<in> matched (dirs_in (sorted_paths (iterdir l))) (dirs_in (sorted_paths (iterdir r)))"
        "pp \<in> differ_paths decodes md5 x y"
      by auto
    from xy(1) obtain n where n: "fst x = fst l @ [n]" "fst y = fst r @ [n]"
        "map_of (snd l) n = Some (Dir (snd x))" "map_of (snd r) n = Some (Dir (snd y))"
      using matched_dirs_listing [OF dl dr, of x y] by blast
    from xy(2) obtain q where q: "pp = (fst x @ q, fst y @ q)"
        "differs decodes md5 (Dir (snd x)) (Dir (snd y)) q"
      by (auto simp: differ_paths_def)
    have "q \<noteq> []" using q(2) by auto
    then have "differs decodes md5 (Dir (snd l)) (Dir (snd r)) (n # q)"
      using differs_Cons [of q decodes md5 "snd l" "snd r" n] n(3,4) q(2) by blast
    moreover have "pp = (fst l @ n # q, fst r @ n # q)" using q(1) n(1,2) by simp
    ultimately show ?thesis unfolding differ_paths_def by blast
  qed
qed

lemma matched_swap: "matched rs ls = prod.swap ` matched ls rs"
  by (auto simp: matched_def)

lemma matched_dirs_wf:
  assumes "wf_node (Dir (snd l))" and "wf_node (Dir (snd r))"
    and "xy \<in> matched (dirs_in (sorted_paths (iterdir l))) (dirs_in (sorted_paths (iterdir r)))"
  shows "wf_node (Dir (snd (fst xy))) \<and> wf_node (Dir (snd (snd xy)))"
proof -
  have dl: "distinct (map fst (snd l))" and dr: "distinct (map fst (snd r))"
    and wl: "wf_children (snd l)" and wr: "wf_children (snd r)"
    using assms(1,2) by simp_all
  obtain n where n: "map_of (snd l) n = Some (Dir (snd (fst xy)))"
      "map_of (snd r) n = Some (Dir (snd (snd xy)))"
    using matched_dirs_listing [OF dl dr, of "fst xy" "snd xy"] assms(3) by auto
  show ?thesis
    using wf_children_member [OF wl map_of_SomeD [OF n(1)]]
      wf_children_member [OF wr map_of_SomeD [OF n(2)]] by simp
qed

lemma compare_sets:
  shows "wf_node (Dir (snd l)) \<Longrightarrow> wf_node (Dir (snd r)) \<Longrightarrow>
           set (left_only (compare_dir_contents decodes md5 l r s)) = set (left_only s) \<union> only_paths l r
         \<and> set (right_only (compare_dir_contents decodes md5 l r s)) = set (right_only s) \<union> only_paths r l
         \<and> set (hash_diffs (compare_dir_contents decodes md5 l r s))
             = set (hash_diffs s) \<union> differ_paths decodes md5 l r"
    and "sorted_wrt (<) (map entry_name (dirs_in lc)) \<Longrightarrow>
         sorted_wrt (<) (map entry_name (dirs_in rc)) \<Longrightarrow>
         (\<forall>xy \<in> matched (dirs_in lc) (dirs_in rc). wf_pair xy) \<Longrightarrow>
           set (left_only (compare_subdirs decodes md5 lc rc s))
             = set (left_only s) \<union> fst ` unmatched (dirs_in lc) (dirs_in rc)
               \<union> (\<Union>xy \<in> matched (dirs_in lc) (dirs_in rc). only_paths (fst xy) (snd xy))
         \<and> set (right_only (compare_subdirs decodes md5 lc rc s))
             = set (right_only s) \<union> fst ` unmatched (dirs_in rc) (dirs_in lc)
               \<union> (\<Union>xy \<in> matched (dirs_in lc) (dirs_in rc). only_paths (snd xy) (fst xy))
         \<and> set (hash_diffs (compare_subdirs decodes md5 lc rc s))
             = set (hash_diffs s)
               \<union> (\<Union>xy \<in> matched (dirs_in lc) (dirs_in rc). differ_paths decodes md5 (fst xy) (snd xy))"
    and "(\<forall>xy \<in> set ns. wf_pair xy) \<Longrightarrow>
           set (left_only (for_next_subdirs decodes md5 ns s))
             = set (left_only s) \<union> (\<Union>xy \<in> set ns. only_paths (fst xy) (snd xy))
         \<and> set (right_only (for_next_subdirs decodes md5 ns s))
             = set (right_only s) \<union> (\<Union>xy \<in> set ns. only_paths (snd xy) (fst xy))
         \<and> set (hash_diffs (for_next_subdirs decodes md5 ns s))
             = set (hash_diffs s) \<union> (\<Union>xy \<in> set ns. differ_paths decodes md5 (fst xy) (snd xy))"
proof (induction decodes md5 l r s and decodes md5 lc rc s and decodes md5 ns s
       rule: compare_dir_contents_compare_subdirs_for_next_subdirs.induct)
  case (1 decodes md5 l r self)
  let ?L = "sorted_paths (iterdir l)" and ?R = "sorted_paths (iterdir r)"
  let ?s1 = "compare_subfiles decodes md5 ?L ?R self"
  have dl: "distinct (map fst (snd l))" and dr: "distinct (map fst (snd r))"
    using "1.prems" by simp_all
  have sL: "sorted_wrt (<) (map entry_name ?L)" and sR: "sorted_wrt (<) (map entry_name ?R)"
    using sorted_names_listing dl dr by blast+
  have files:
    "set (left_only ?s1) = set (left_only self) \<union> fst ` unmatched (files_in ?L) (files_in ?R)"
    "set (right_only ?s1) = set (right_only self) \<union> fst ` unmatched (files_in ?R) (files_in ?L)"
    "set (hash_diffs ?s1)
       = set (hash_diffs self) \<union> differing decodes md5 (matched (files_in ?L) (files_in ?R))"
    using compare_subfiles_loop_sets [OF sorted_names_files_in [OF sL] sorted_names_files_in [OF sR],
        of decodes md5 self]
    by (simp_all add: compare_subfiles_def)
  have wf: "\<forall>xy \<in> matched (dirs_in ?L) (dirs_in ?R). wf_pair xy"
    using matched_dirs_wf [OF "1.prems"] by (simp add: wf_pair_def)
  note IH = "1.IH" [OF sorted_names_dirs_in [OF sL] sorted_names_dirs_in [OF sR] wf]
  have swap: "(\<Union>xy \<in> matched (dirs_in ?R) (dirs_in ?L). only_paths (fst xy) (snd xy))
               = (\<Union>xy \<in> matched (dirs_in ?L) (dirs_in ?R). only_paths (snd xy) (fst xy))"
    by (simp add: matched_swap [of "dirs_in ?R" "dirs_in ?L"])
  have cdc: "compare_dir_contents decodes md5 l r self = compare_subdirs decodes md5 ?L ?R ?s1"
    by (simp del: compare_subdirs.simps)
  show ?case
    unfolding cdc only_paths_decomp [OF dl dr] only_paths_decomp [OF dr dl] differ_paths_decomp [OF dl dr] swap
    using IH files by (simp only: Un_assoc)
next
  case (2 decodes md5 lc rc self)
  let ?X = "compare_subdirs_loop (dirs_in lc) (dirs_in rc) [] self"
  note loop = compare_subdirs_loop_sets [OF "2.prems"(1,2), of "[]" self]
  have m: "set (fst ?X) = matched (dirs_in lc) (dirs_in rc)"
    using loop by simp
  have wf: "\<forall>xy \<in> set (fst ?X). wf_pair xy"
    using "2.prems"(3) m by simp
  have cs: "compare_subdirs decodes md5 lc rc self
              = for_next_subdirs decodes md5 (fst ?X) (snd ?X)"
    by simp
  show ?case
    unfolding cs using "2.IH" [OF wf] loop by (simp only: m)
next
  case (3 decodes md5 self)
  show ?case by simp
next
  case (4 decodes md5 dir_entry next_subdirs self)
  have a: "wf_node (Dir (snd (fst dir_entry)))" "wf_node (Dir (snd (snd dir_entry)))"
    and b: "\<forall>xy \<in> set next_subdirs. wf_pair xy"
    using "4.prems" by (simp_all add: wf_pair_def)
  have fn: "for_next_subdirs decodes md5 (dir_entry # next_subdirs) self
              = for_next_subdirs decodes md5 next_subdirs
                  (compare_dir_contents decodes md5 (fst dir_entry) (snd dir_entry) self)"
    by (simp del: compare_dir_contents.simps)
  show ?case
    unfolding fn using "4.IH"(1) [OF a] "4.IH"(2) [OF b]
    by (simp del: compare_dir_contents.simps add: Un_assoc)
qed

section \<open>The lists after the comparison of two roots\<close>

lemma wf_lookup: "wf_node t \<Longrightarrow> lookup t p = Some c \<Longrightarrow> wf_node c"
proof (induction t p rule: lookup.induct)
  case (2 cs x p)
  then obtain c' where c': "map_of cs x = Some c'" "lookup c' p = Some c"
    by (auto split: option.splits)
  have "wf_node c'"
    using wf_children_member [OF _ map_of_SomeD [OF c'(1)]] "2.prems"(1) by simp
  then show ?case using "2.IH" c' by simp
qed simp_all

lemma relative_to_iff: "relative_to p base = Inr q \<longleftrightarrow> p = base @ q"
  by (auto simp: relative_to_def prefix_def)

lemma relative_paths_iff: "q \<in> relative_paths base ps \<longleftrightarrow> base @ q \<in> set ps"
  by (auto simp: relative_paths_def relative_to_iff)

lemma Path_is_dir_lookup: "Path_is_dir fs p \<longleftrightarrow> (\<exists>cs. lookup fs p = Some (Dir cs))"
  by (auto simp: Path_is_dir_def split: option.splits node.splits)

lemma Path_is_file_lookup: "Path_is_file fs p \<longleftrightarrow> (\<exists>bs. lookup fs p = Some (File bs))"
  by (auto simp: Path_is_file_def split: option.splits node.splits)

lemma compare_roots_eq:
  assumes "lookup fs l = Some (Dir lcs)" and "lookup fs r = Some (Dir rcs)"
  shows "compare_roots decodes md5 fs l r pb =
     Inr (compare_dir_contents decodes md5 (l, lcs) (r, rcs)
            \<lparr>dirs_data = DirsData_init l r,
             progress_bar = (pb \<and> 0 < rglob_count_children lcs + rglob_count_children rcs)\<rparr>)"
  using assms
  by (cases pb)
     (simp_all add: compare_roots_def FSync_init_def Path_is_dir_def check_differences_def
        opendir_def DirsData_init_def DirData_init_def Let_def
        del: compare_dir_contents.simps)

lemma compare_roots_sets:
  assumes "wf_node fs" and "lookup fs l = Some (Dir lcs)" and "lookup fs r = Some (Dir rcs)"
  shows "\<exists>self. compare_roots decodes md5 fs l r pb = Inr self
     \<and> set (left_only self) = {l @ q | q. only_in (Dir lcs) (Dir rcs) q}
     \<and> set (right_only self) = {r @ q | q. only_in (Dir rcs) (Dir lcs) q}
     \<and> set (hash_diffs self) = {(l @ q, r @ q) | q. differs decodes md5 (Dir lcs) (Dir rcs) q}"
proof -
  have w: "wf_node (Dir (snd (l, lcs)))" "wf_node (Dir (snd (r, rcs)))"
    using wf_lookup [OF assms(1,2)] wf_lookup [OF assms(1,3)] by simp_all
  show ?thesis
    unfolding compare_roots_eq [OF assms(2,3)]
    using compare_sets(1) [OF w, of decodes md5]
    by (simp add: only_paths_def differ_paths_def DirsData_init_def DirData_init_def del: compare_dir_contents.simps)
qed

lemma file_not_dir: "Path_is_file A q \<Longrightarrow> \<not> Path_is_dir A q"
  by (auto simp: Path_is_file_lookup Path_is_dir_lookup)

lemma differs_files: "differs decodes md5 A B q \<Longrightarrow> Path_is_file A q \<and> Path_is_file B q"
  by (auto simp: differs_iff Path_is_file_lookup)

lemma only_in_not_differs: "only_in A B q \<Longrightarrow> \<not> differs decodes md5 A B q"
  using differs_files [of decodes md5 A B q] file_not_dir [of A q]
  by (auto simp: only_in_def)

lemma only_in_not_differs': "only_in B A q \<Longrightarrow> \<not> differs decodes md5 A B q"
  using differs_files [of decodes md5 A B q] file_not_dir [of B q]
  by (auto simp: only_in_def)

lemma only_in_both: "only_in A B q \<and> only_in B A q \<longleftrightarrow> kind_conflict A B q"
  using file_not_dir [of A q] file_not_dir [of B q]
  by (auto simp: only_in_def kind_conflict_def)

lemma lookup_append:
  "lookup t (p @ q) = (case lookup t p of None \<Rightarrow> None | Some c \<Rightarrow> lookup c q)"
  by (induction t p rule: lookup.induct) (auto split: option.splits)

lemma dir_above:
  assumes "q' \<noteq> []" and "lookup A (q @ q') = Some v"
  shows "Path_is_dir A q"
proof -
  obtain c where c: "lookup A q = Some c" "lookup c q' = Some v"
    using assms(2) by (auto simp: lookup_append split: option.splits)
  obtain x q'' where "q' = x # q''" using assms(1) by (cases q') auto
  then obtain cs where "c = Dir cs" using c(2) lookup_Cons_Some by blast
  with c(1) show ?thesis by (simp add: Path_is_dir_lookup)
qed

lemma dir_above_butlast:
  assumes "q' \<noteq> []" and "Path_is_dir A (butlast (q @ q'))"
  shows "Path_is_dir A q"
proof (cases "butlast q' = []")
  case True
  then show ?thesis using assms by (simp add: butlast_append)
next
  case False
  obtain cs where "lookup A (q @ butlast q') = Some (Dir cs)"
    using assms by (auto simp: butlast_append Path_is_dir_lookup)
  from dir_above [OF False this] show ?thesis .
qed

lemma nothing_below_left:
  assumes "\<not> Path_is_dir B q" and "q' \<noteq> []"
  shows "\<not> only_in A B (q @ q')" and "\<not> differs decodes md5 A B (q @ q')"
    and "\<not> only_in B A (q @ q')" and "\<not> differs decodes md5 B A (q @ q')"
proof -
  show "\<not> only_in A B (q @ q')" "\<not> only_in B A (q @ q')"
    using dir_above_butlast [OF assms(2), of B q] assms(1) by (auto simp: only_in_def)
  show "\<not> differs decodes md5 A B (q @ q')" "\<not> differs decodes md5 B A (q @ q')"
    using dir_above [OF assms(2), of B q] assms(1) by (auto simp: differs_iff)
qed

lemma mem_under: "(l @ q \<in> {l @ q' | q'. P q'}) = P q"
  by simp

lemma mem_under_fst: "(l @ q \<in> fst ` {(l @ q', r @ q') | q'. P q'}) = P q"
  by (simp add: image_iff)

lemma mem_under_snd: "(r @ q \<in> snd ` {(l @ q', r @ q') | q'. P q'}) = P q"
  by (simp add: image_iff)

lemma file_against_dir_only_in:
  assumes "file_against_dir A B q"
  shows "only_in A B q" and "only_in B A q"
    and "\<not> differs decodes md5 A B q" and "\<not> differs decodes md5 B A q"
    and "\<not> Path_is_dir A q"
  using assms file_not_dir [of A q] file_not_dir [of B q]
    differs_files [of decodes md5 A B q] differs_files [of decodes md5 B A q]
  by (auto simp: file_against_dir_def only_in_def)

lemma swap_sides_fields [simp]:
  "left_only (swap_sides s) = right_only s"
  "right_only (swap_sides s) = left_only s"
  "hash_diffs (swap_sides s) = map prod.swap (hash_diffs s)"
  by (simp_all add: swap_sides_def)

section \<open>The two -only lists do not depend on the oracle\<close>

lemma only_lists_subfiles_loop:
  "only_lists s = only_lists s' \<Longrightarrow>
     only_lists (compare_subfiles_loop decodes md5 ls rs s)
       = only_lists (compare_subfiles_loop decodes' md5' ls rs s')"
proof (induction decodes md5 ls rs s arbitrary: s' rule: compare_subfiles_loop.induct)
  case (1 decodes md5 l ls r rs self)
  let ?s1 = "if \<not> fst (are_files_equal decodes md5 l r)
             then hash_diff_append (fst l, fst r) self else self"
  let ?s1' = "if \<not> fst (are_files_equal decodes' md5' l r)
              then hash_diff_append (fst l, fst r) s' else s'"
  have e1: "only_lists ?s1 = only_lists ?s1'" using "1.prems" by simp
  have e2: "only_lists (left_diff_append (fst l) self) = only_lists (left_diff_append (fst l) s')"
    using "1.prems" by simp
  have e3: "only_lists (right_diff_append (fst r) self) = only_lists (right_diff_append (fst r) s')"
    using "1.prems" by simp
  show ?case
  proof (cases "Path_name (fst l) = Path_name (fst r)")
    case True
    from "1.IH"(1) [OF True e1] True show ?thesis by simp
  next
    case False
    show ?thesis
    proof (cases "Path_of (Path_name (fst l)) < Path_of (Path_name (fst r))")
      case True
      from "1.IH"(2) [OF False True e2] False True show ?thesis by simp
    next
      case ge: False
      from "1.IH"(3) [OF False ge e3] False ge show ?thesis by simp
    qed
  qed
next
  case (2 decodes md5 ls self)
  then show ?case by (cases ls) simp_all
next
  case (3 decodes md5 r rs self)
  then show ?case by simp
qed

lemma only_lists_subdirs_loop:
  "only_lists s = only_lists s' \<Longrightarrow>
     fst (compare_subdirs_loop ls rs ns s) = fst (compare_subdirs_loop ls rs ns s')
     \<and> only_lists (snd (compare_subdirs_loop ls rs ns s))
         = only_lists (snd (compare_subdirs_loop ls rs ns s'))"
proof (induction ls rs ns s arbitrary: s' rule: compare_subdirs_loop.induct)
  case (1 l ls r rs next_subdirs self)
  have e2: "only_lists (left_diff_append (fst l) self) = only_lists (left_diff_append (fst l) s')"
    using "1.prems" by simp
  have e3: "only_lists (right_diff_append (fst r) self) = only_lists (right_diff_append (fst r) s')"
    using "1.prems" by simp
  show ?case
  proof (cases "Path_name (fst l) = Path_name (fst r)")
    case True
    from "1.IH"(1) [OF True "1.prems"] True show ?thesis by simp
  next
    case False
    show ?thesis
    proof (cases "Path_of (Path_name (fst l)) < Path_of (Path_name (fst r))")
      case True
      from "1.IH"(2) [OF False True e2] False True show ?thesis by simp
    next
      case ge: False
      from "1.IH"(3) [OF False ge e3] False ge show ?thesis by simp
    qed
  qed
next
  case (2 ls next_subdirs self)
  then show ?case by (cases ls) simp_all
next
  case (3 r rs next_subdirs self)
  then show ?case by simp
qed

lemma only_lists_compare:
  shows "only_lists s = only_lists s' \<Longrightarrow>
           only_lists (compare_dir_contents decodes md5 l r s)
             = only_lists (compare_dir_contents decodes' md5' l r s')"
    and "only_lists s = only_lists s' \<Longrightarrow>
           only_lists (compare_subdirs decodes md5 lc rc s)
             = only_lists (compare_subdirs decodes' md5' lc rc s')"
    and "only_lists s = only_lists s' \<Longrightarrow>
           only_lists (for_next_subdirs decodes md5 ns s)
             = only_lists (for_next_subdirs decodes' md5' ns s')"
proof (induction decodes md5 l r s and decodes md5 lc rc s and decodes md5 ns s
       arbitrary: s' and s' and s'
       rule: compare_dir_contents_compare_subdirs_for_next_subdirs.induct)
  case (1 decodes md5 l r self)
  let ?L = "sorted_paths (iterdir l)" and ?R = "sorted_paths (iterdir r)"
  have files: "only_lists (compare_subfiles decodes md5 ?L ?R self)
                 = only_lists (compare_subfiles decodes' md5' ?L ?R s')"
    unfolding compare_subfiles_def Let_def
    by (rule only_lists_subfiles_loop [OF "1.prems"])
  have cdc: "compare_dir_contents d m l r x
       = compare_subdirs d m ?L ?R (compare_subfiles d m ?L ?R x)" for d m x
    by (simp del: compare_subdirs.simps)
  show ?case unfolding cdc by (rule "1.IH" [OF files])
next
  case (2 decodes md5 lc rc self)
  let ?X = "compare_subdirs_loop (dirs_in lc) (dirs_in rc) [] self"
  let ?X' = "compare_subdirs_loop (dirs_in lc) (dirs_in rc) [] s'"
  have loop: "fst ?X = fst ?X'" "only_lists (snd ?X) = only_lists (snd ?X')"
    using only_lists_subdirs_loop [OF "2.prems", of "dirs_in lc" "dirs_in rc" "[]"] by simp_all
  have cs: "compare_subdirs d m lc rc x
              = for_next_subdirs d m (fst (compare_subdirs_loop (dirs_in lc) (dirs_in rc) [] x))
                  (snd (compare_subdirs_loop (dirs_in lc) (dirs_in rc) [] x))" for d m x
    by simp
  show ?case
    unfolding cs using "2.IH" [OF loop(2)] by (simp only: loop(1))
next
  case (3 decodes md5 self)
  then show ?case by simp
next
  case (4 decodes md5 dir_entry next_subdirs self)
  have fn: "for_next_subdirs d m (dir_entry # next_subdirs) x
              = for_next_subdirs d m next_subdirs
                  (compare_dir_contents d m (fst dir_entry) (snd dir_entry) x)" for d m x
    by (simp del: compare_dir_contents.simps)
  show ?case
    unfolding fn by (rule "4.IH"(2) [OF "4.IH"(1) [OF "4.prems"]])
qed

lemma sym_on_text: "sym_on (\<lambda>bs. True) md5 L R"
  by (auto simp: sym_on_def verdict_iff)

lemma only_lists_mirror:
  assumes "wf_node (Dir (snd l))" and "wf_node (Dir (snd r))"
  shows "left_only (compare_dir_contents decodes md5 l r s)
           = right_only (compare_dir_contents decodes md5 r l (swap_sides s))"
    and "right_only (compare_dir_contents decodes md5 l r s)
           = left_only (compare_dir_contents decodes md5 r l (swap_sides s))"
proof -
  let ?T = "\<lambda>bs :: byte list. True"
  have g: "good_dir ?T md5 l r"
    using assms sym_on_text by (simp add: good_dir_def)
  have a: "only_lists (compare_dir_contents decodes md5 l r s)
             = only_lists (compare_dir_contents ?T md5 l r s)"
    by (rule only_lists_compare(1)) simp
  have b: "only_lists (compare_dir_contents decodes md5 r l (swap_sides s))
             = only_lists (compare_dir_contents ?T md5 r l (swap_sides s))"
    by (rule only_lists_compare(1)) simp
  have c: "only_lists (compare_dir_contents ?T md5 r l (swap_sides s))
             = (right_only (compare_dir_contents ?T md5 l r s),
                left_only (compare_dir_contents ?T md5 l r s))"
    unfolding mirror_rec(1) [OF g, symmetric] by (simp del: compare_dir_contents.simps)
  from a b c
  show "left_only (compare_dir_contents decodes md5 l r s)
           = right_only (compare_dir_contents decodes md5 r l (swap_sides s))"
    and "right_only (compare_dir_contents decodes md5 l r s)
           = left_only (compare_dir_contents decodes md5 r l (swap_sides s))"
    by (simp_all del: compare_dir_contents.simps)
qed

section \<open>The kind of a path\<close>

lemma kind_of_simps [simp]:
  "kind_of (File a) = KFile a" "kind_of (Dir cs) = KDir" "kind_of Special = KSpecial"
  by (simp_all add: kind_of_def)

lemma kind_of_eq [simp]:
  "kind_of c = KDir \<longleftrightarrow> (\<exists>cs. c = Dir cs)"
  "kind_of c = KFile a \<longleftrightarrow> c = File a"
  "kind_of c = KSpecial \<longleftrightarrow> c = Special"
  by (cases c; simp)+

lemma kind_at_Nil [simp]: "kind_at c [] = Some (kind_of c)"
  by (simp add: kind_at_def)

lemma kind_at_Cons:
  "kind_at (Dir cs) (x # p) = (case map_of cs x of None \<Rightarrow> None | Some c \<Rightarrow> kind_at c p)"
  by (simp add: kind_at_def split: option.splits)

lemma kind_at_leaf [simp]:
  "kind_at (File a) (x # p) = None" "kind_at Special (x # p) = None"
  by (simp_all add: kind_at_def)

lemma kind_at_append:
  "lookup fs l = Some L \<Longrightarrow> kind_at fs (l @ q) = kind_at L q"
  by (simp add: kind_at_def lookup_append)

lemma kind_at_None_append:
  "kind_at fs p = None \<Longrightarrow> kind_at fs (p @ q) = None"
  by (simp add: kind_at_def lookup_append)

lemma kind_at_leaf_append:
  "kind_at fs p = Some (KFile a) \<Longrightarrow> q \<noteq> [] \<Longrightarrow> kind_at fs (p @ q) = None"
  by (cases q) (auto simp: kind_at_def lookup_append)

lemma Path_exists_kind: "Path_exists fs p \<longleftrightarrow> kind_at fs p \<noteq> None"
  by (simp add: Path_exists_def kind_at_def)

lemma Path_is_dir_kind: "Path_is_dir fs p \<longleftrightarrow> kind_at fs p = Some KDir"
  by (auto simp: Path_is_dir_lookup kind_at_def)

lemma Path_is_file_kind: "Path_is_file fs p \<longleftrightarrow> (\<exists>a. kind_at fs p = Some (KFile a))"
  by (auto simp: Path_is_file_lookup kind_at_def)

lemma lookup_File_kind: "lookup fs p = Some (File a) \<longleftrightarrow> kind_at fs p = Some (KFile a)"
  by (auto simp: kind_at_def)

lemma wf_children_update:
  "wf_children cs \<Longrightarrow> wf_node v \<Longrightarrow> wf_children (AList.update x v cs)"
  by (induction cs) auto

lemma wf_children_delete: "wf_children cs \<Longrightarrow> wf_children (AList.delete x cs)"
  by (induction cs) auto

lemma wf_Dir_update:
  "wf_node (Dir cs) \<Longrightarrow> wf_node v \<Longrightarrow> wf_node (Dir (AList.update x v cs))"
  by (simp add: wf_children_update distinct_update)

lemma wf_Dir_delete: "wf_node (Dir cs) \<Longrightarrow> wf_node (Dir (AList.delete x cs))"
  by (simp add: wf_children_delete distinct_delete)

lemma wf_children_map_of: "wf_children cs \<Longrightarrow> map_of cs x = Some c \<Longrightarrow> wf_node c"
  using wf_children_member map_of_SomeD by fast

lemma kind_at_update:
  "kind_at (Dir (AList.update x v cs)) p' =
     (case p' of [] \<Rightarrow> Some KDir
      | y # q \<Rightarrow> if y = x then kind_at v q else kind_at (Dir cs) p')"
  by (cases p') (simp_all add: kind_at_Cons update_conv')

lemma kind_at_delete:
  "kind_at (Dir (AList.delete x cs)) p' =
     (case p' of [] \<Rightarrow> Some KDir
      | y # q \<Rightarrow> if y = x then None else kind_at (Dir cs) p')"
  by (cases p') (simp_all add: kind_at_Cons delete_conv')

lemma put_kind:
  assumes "p \<noteq> []" and "Path_is_dir fs (butlast p)"
  shows "\<exists>fs'. put parents fs p new = Inr fs'
     \<and> (\<forall>p'. kind_at fs' p' =
           (if prefix p p' then kind_at new (drop (length p) p') else kind_at fs p'))
     \<and> (wf_node fs \<longrightarrow> wf_node new \<longrightarrow> wf_node fs')"
  using assms
proof (induction parents fs p new rule: put.induct)
  case (1 parents fs new)
  then show ?case by simp
next
  case (2 parents cs x p new)
  show ?case
  proof (cases "p = []")
    case True
    have k: "kind_at (Dir (AList.update x new cs)) p' =
           (if prefix [x] p' then kind_at new (drop (length [x]) p') else kind_at (Dir cs) p')" for p'
      by (cases p') (simp_all add: kind_at_update)
    have "put parents (Dir cs) [x] new = Inr (Dir (AList.update x new cs))"
      by (simp split: option.splits)
    then show ?thesis
      using k True wf_Dir_update [of cs new x] by auto
  next
    case False
    then have "Path_is_dir (Dir cs) (x # butlast p)"
      using "2.prems" by simp
    then obtain c where c: "map_of cs x = Some c" "Path_is_dir c (butlast p)"
      by (auto simp: Path_is_dir_Cons)
    from "2.IH" [OF c(1) False c(2)] obtain c' where c': "put parents c p new = Inr c'"
      "\<forall>p'. kind_at c' p' = (if prefix p p' then kind_at new (drop (length p) p') else kind_at c p')"
      "wf_node c \<longrightarrow> wf_node new \<longrightarrow> wf_node c'"
      by blast
    have r: "put parents (Dir cs) (x # p) new = Inr (Dir (AList.update x c' cs))"
      using c(1) c'(1) by simp
    have k: "kind_at (Dir (AList.update x c' cs)) p' =
           (if prefix (x # p) p' then kind_at new (drop (length (x # p)) p')
            else kind_at (Dir cs) p')" for p'
      using c(1) c'(2) by (cases p') (auto simp: kind_at_Cons update_conv')
    have w: "wf_node (Dir cs) \<longrightarrow> wf_node new \<longrightarrow> wf_node (Dir (AList.update x c' cs))"
      using c'(3) wf_children_map_of [OF _ c(1)] wf_Dir_update [of cs c' x] by auto
    from r k w show ?thesis by blast
  qed
qed (auto simp: Path_is_dir_def split: if_splits)

lemma delete_kind:
  assumes "p \<noteq> []" and "Path_exists fs p"
  shows "\<exists>fs'. delete_at fs p = Inr fs'
     \<and> (\<forall>p'. kind_at fs' p' = (if prefix p p' then None else kind_at fs p'))
     \<and> (wf_node fs \<longrightarrow> wf_node fs')"
  using assms
proof (induction fs p rule: delete_at.induct)
  case (1 fs)
  then show ?case by simp
next
  case (2 cs x p)
  from "2.prems"(2) obtain c where c: "map_of cs x = Some c" "Path_exists c p"
    by (auto simp: Path_exists_def split: option.splits)
  show ?case
  proof (cases "p = []")
    case True
    have k: "kind_at (Dir (AList.delete x cs)) p' =
           (if prefix [x] p' then None else kind_at (Dir cs) p')" for p'
      by (cases p') (simp_all add: kind_at_delete)
    have "delete_at (Dir cs) [x] = Inr (Dir (AList.delete x cs))"
      using c(1) by simp
    then show ?thesis
      using k True wf_Dir_delete [of cs x] by auto
  next
    case False
    from "2.IH" [OF c(1) False False c(2)] obtain c' where c': "delete_at c p = Inr c'"
      "\<forall>p'. kind_at c' p' = (if prefix p p' then None else kind_at c p')"
      "wf_node c \<longrightarrow> wf_node c'"
      by blast
    have r: "delete_at (Dir cs) (x # p) = Inr (Dir (AList.update x c' cs))"
      using c(1) c'(1) False by simp
    have k: "kind_at (Dir (AList.update x c' cs)) p' =
           (if prefix (x # p) p' then None else kind_at (Dir cs) p')" for p'
      using c(1) c'(2) by (cases p') (auto simp: kind_at_Cons update_conv')
    have w: "wf_node (Dir cs) \<longrightarrow> wf_node (Dir (AList.update x c' cs))"
      using c'(3) wf_children_map_of [OF _ c(1)] wf_Dir_update [of cs c' x] by auto
    from r k w show ?thesis by blast
  qed
qed (simp_all add: Path_exists_def)

section \<open>The library calls, by kind\<close>

lemma has_special_children_iff:
  "has_special_children cs \<longleftrightarrow> (\<exists>nc \<in> set cs. has_special (snd nc))"
  by (induction cs) auto

lemma has_special_kind:
  "has_special c \<Longrightarrow> wf_node c \<Longrightarrow> \<exists>q. kind_at c q = Some KSpecial"
  "has_special_children cs \<Longrightarrow> wf_children cs \<Longrightarrow> distinct (map fst cs) \<Longrightarrow>
     \<exists>x c q. map_of cs x = Some c \<and> kind_at c q = Some KSpecial"
proof (induction c and cs rule: has_special_has_special_children.induct)
  case (1 cs)
  then obtain x c q where "map_of cs x = Some c" "kind_at c q = Some KSpecial"
    by auto
  then have "kind_at (Dir cs) (x # q) = Some KSpecial"
    by (simp add: kind_at_Cons)
  then show ?case by blast
next
  case (2 bs)
  then show ?case by simp
next
  case 3
  have "kind_at Special [] = Some KSpecial" by simp
  then show ?case by blast
next
  case 4
  then show ?case by simp
next
  case (5 nc cs)
  show ?case
  proof (cases "has_special (snd nc)")
    case True
    then obtain q where "kind_at (snd nc) q = Some KSpecial"
      using "5.IH"(1) "5.prems" by auto
    moreover have "map_of (nc # cs) (fst nc) = Some (snd nc)"
      by (cases nc) simp
    ultimately show ?thesis by blast
  next
    case False
    then obtain x c q where x: "map_of cs x = Some c" "kind_at c q = Some KSpecial"
      using "5.IH"(2) "5.prems" by auto
    then have "x \<in> fst ` set cs"
      by (metis map_of_SomeD fst_conv image_eqI)
    moreover have "fst nc \<notin> fst ` set cs" using "5.prems"(3) by simp
    ultimately have "x \<noteq> fst nc" by blast
    then have "map_of (nc # cs) x = Some c"
      using x(1) by (cases nc) simp
    with x(2) show ?thesis by blast
  qed
qed

lemma not_prefix_below:
  assumes "\<not> prefix dst src" and "\<not> prefix src dst"
  shows "\<not> prefix dst (src @ q)"
proof
  assume "prefix dst (src @ q)"
  moreover have "prefix src (src @ q)" by simp
  ultimately have "prefix dst src \<or> prefix src dst"
    by (rule prefix_same_cases)
  with assms show False by simp
qed

lemma not_prefix_butlast: "p \<noteq> [] \<Longrightarrow> \<not> prefix p (butlast p)"
  by (metis length_butlast prefix_length_le diff_less length_greater_0_conv less_numeral_extra(1)
      not_less)

lemma kind_at_File: "kind_at (File a) q = (if q = [] then Some (KFile a) else None)"
  by (cases q) simp_all

lemma copyfile_kind:
  assumes "kind_at fs src = Some (KFile a)" and "src \<noteq> dst"
    and "kind_at fs dst = None \<or> (\<exists>b. kind_at fs dst = Some (KFile b))"
    and "dst \<noteq> []" and "Path_is_dir fs (butlast dst)"
  shows "\<exists>fs'. copyfile fs src dst = Inr fs'
     \<and> (\<forall>p'. kind_at fs' p' =
           (if prefix dst p' then kind_at (File a) (drop (length dst) p') else kind_at fs p'))
     \<and> (wf_node fs \<longrightarrow> wf_node fs')"
proof -
  have s: "lookup fs src = Some (File a)"
    using assms(1) by (simp add: lookup_File_kind)
  have d: "lookup fs dst = None \<or> (\<exists>b. lookup fs dst = Some (File b))"
    using assms(3) by (auto simp: kind_at_def)
  have c: "copyfile fs src dst = put False fs dst (File a)"
    using s d assms(2) by (auto simp: copyfile_def)
  show ?thesis
    unfolding c using put_kind [OF assms(4,5), of False "File a"] by simp
qed

lemma copytree_kind:
  assumes "lookup fs src = Some (Dir cs)" and "kind_at fs dst = None"
    and "\<not> has_special (Dir cs)" and "\<not> prefix src dst"
    and "dst \<noteq> []" and "Path_is_dir fs (butlast dst)"
  shows "\<exists>fs'. copytree fs src dst = Inr fs'
     \<and> (\<forall>p'. kind_at fs' p' =
           (if prefix dst p' then kind_at (Dir cs) (drop (length dst) p') else kind_at fs p'))
     \<and> (wf_node fs \<longrightarrow> wf_node fs')"
proof -
  have c: "copytree fs src dst = put True fs dst (Dir cs)"
    using assms(1-4) by (simp add: copytree_def Path_exists_kind split: sum.splits)
  have w: "wf_node fs \<longrightarrow> wf_node (Dir cs)"
    using wf_lookup [OF _ assms(1)] by blast
  show ?thesis
    unfolding c using put_kind [OF assms(5,6), of True "Dir cs"] w by blast
qed

lemma copytree_inside_source:
  "copytree (Dir [(''L'', Dir [(''a'', File [1])])]) [''L''] [''L'', ''new'']
     = Inr (Dir [(''L'', Dir [(''a'', File [1]), (''new'', Dir [(''a'', File [1])])])])"
  "copytree (Dir [(''L'', Dir [(''a'', Dir [])])]) [''L''] [''L'', ''a'', ''b'']
     = Inl RecursionError"
  "copytree (Dir [(''L'', Dir [(''a'', File [1])])]) [''L''] [''L'', ''a'', ''b'']
     = Inl NotADirectoryError"
  by (simp_all add: copytree_def Path_exists_def Path_is_dir_def)

lemma rmtree_not_a_directory:
  "rmtree (Dir [(''f'', File [1]), (''p'', Special)]) [''f''] = Inl NotADirectoryError"
  "rmtree (Dir [(''f'', File [1]), (''p'', Special)]) [''p''] = Inl Blocked"
  by (simp_all add: rmtree_def)

lemma rmtree_kind:
  assumes "kind_at fs p = Some KDir" and "p \<noteq> []"
  shows "\<exists>fs'. rmtree fs p = Inr fs'
     \<and> (\<forall>p'. kind_at fs' p' = (if prefix p p' then None else kind_at fs p'))
     \<and> (wf_node fs \<longrightarrow> wf_node fs')"
proof -
  obtain cs where "lookup fs p = Some (Dir cs)"
    using assms(1) by (auto simp: kind_at_def)
  then have "rmtree fs p = delete_at fs p" "Path_exists fs p"
    by (simp_all add: rmtree_def Path_exists_def)
  then show ?thesis using delete_kind [OF assms(2)] by simp
qed

lemma unlink_kind:
  assumes "kind_at fs p = Some k" and "k \<noteq> KDir" and "p \<noteq> []"
  shows "\<exists>fs'. unlink fs p = Inr fs'
     \<and> (\<forall>p'. kind_at fs' p' = (if prefix p p' then None else kind_at fs p'))
     \<and> (wf_node fs \<longrightarrow> wf_node fs')"
proof -
  obtain c where c: "lookup fs p = Some c" "kind_of c = k"
    using assms(1) by (auto simp: kind_at_def)
  then have "unlink fs p = delete_at fs p" "Path_exists fs p"
    using assms(2) by (cases c; simp add: unlink_def Path_exists_def)+
  then show ?thesis using delete_kind [OF assms(3)] by simp
qed

lemma remove_item_kind:
  assumes "wf_node fs" and "p \<noteq> []"
  shows "\<exists>fs'. remove_item fs p = Inr fs' \<and> wf_node fs'
     \<and> (\<forall>p'. kind_at fs' p' = (if prefix p p' then None else kind_at fs p'))"
proof (cases "kind_at fs p")
  case None
  then have "remove_item fs p = Inr fs"
    by (simp add: remove_item_def Path_exists_kind)
  moreover have "kind_at fs p' = (if prefix p p' then None else kind_at fs p')" for p'
    using kind_at_None_append [OF None] by (auto simp: prefix_def)
  ultimately show ?thesis using assms(1) by auto
next
  case (Some k)
  show ?thesis
  proof (cases "k = KDir")
    case True
    then have "remove_item fs p = rmtree fs p"
      using Some by (simp add: remove_item_def Path_exists_kind Path_is_dir_kind)
    then show ?thesis
      using rmtree_kind [OF _ assms(2), of fs] Some True assms(1) by auto
  next
    case False
    then have "remove_item fs p = unlink fs p"
      using Some by (simp add: remove_item_def Path_exists_kind Path_is_dir_kind)
    then show ?thesis
      using unlink_kind [OF Some False assms(2)] assms(1) by auto
  qed
qed

lemma sync_items_kind:
  assumes wf: "wf_node fs"
    and src: "kind_at fs src = Some k" "k = KDir \<or> (\<exists>a. k = KFile a)"
    and nsp: "\<forall>q. kind_at fs (src @ q) \<noteq> Some KSpecial"
    and dst: "kind_at fs dst = None \<or> (k = KDir \<and> kind_at fs dst = Some KDir)
               \<or> (\<exists>a b. k = KFile a \<and> kind_at fs dst = Some (KFile b))"
    and ne: "dst \<noteq> []" and par: "Path_is_dir fs (butlast dst)"
    and ind: "\<not> prefix src dst" "\<not> prefix dst src"
  shows "\<exists>fs'. sync_items fs src dst True = Inr fs' \<and> wf_node fs'
     \<and> (\<forall>p'. kind_at fs' p' =
           (if prefix dst p' then kind_at fs (src @ drop (length dst) p') else kind_at fs p'))"
proof -
  have ex: "Path_exists fs src" using src(1) by (simp add: Path_exists_kind)
  from src(2) show ?thesis
  proof
    assume "\<exists>a. k = KFile a"
    then obtain a where a: "kind_at fs src = Some (KFile a)" using src(1) by auto
    then have s: "sync_items fs src dst True = copyfile fs src dst"
      using ex by (simp add: sync_items_def Path_is_dir_kind)
    have d: "kind_at fs dst = None \<or> (\<exists>b. kind_at fs dst = Some (KFile b))"
      using dst a src(1) by auto
    have n: "src \<noteq> dst" using ind by auto
    obtain fs' where f: "copyfile fs src dst = Inr fs'"
      "\<forall>p'. kind_at fs' p' =
           (if prefix dst p' then kind_at (File a) (drop (length dst) p') else kind_at fs p')"
      "wf_node fs'"
      using copyfile_kind [OF a n d ne par] wf by blast
    have "kind_at (File a) q = kind_at fs (src @ q)" for q
      using kind_at_leaf_append [OF a, of q] a by (cases "q = []") (simp_all add: kind_at_File)
    with f s show ?thesis by simp
  next
    assume kd: "k = KDir"
    then obtain cs where cs: "lookup fs src = Some (Dir cs)"
      using src(1) by (auto simp: kind_at_def)
    have sd: "Path_is_dir fs src" using src(1) kd by (simp add: Path_is_dir_kind)
    have below: "\<not> prefix dst (src @ q)" for q
      using not_prefix_below [OF ind(2,1)] .
    obtain fs1 where fs1: "(if Path_exists fs dst then rmtree fs dst else Inr fs) = Inr fs1"
      "wf_node fs1"
      "\<forall>p'. kind_at fs1 p' = (if prefix dst p' then None else kind_at fs p')"
    proof (cases "kind_at fs dst")
      case None
      then have "(if Path_exists fs dst then rmtree fs dst else Inr fs) = Inr fs"
        by (simp add: Path_exists_kind)
      moreover have "kind_at fs p' = (if prefix dst p' then None else kind_at fs p')" for p'
        using kind_at_None_append [OF None] by (auto simp: prefix_def)
      ultimately show ?thesis using that wf by blast
    next
      case (Some k')
      then have "kind_at fs dst = Some KDir" using dst kd by auto
      then show ?thesis
        using rmtree_kind [OF _ ne, of fs] wf that by (auto simp: Path_exists_kind)
    qed
    have k1: "kind_at fs1 (src @ q) = kind_at fs (src @ q)" for q
      using fs1(3) below by simp
    obtain cs1 where cs1: "lookup fs1 src = Some (Dir cs1)"
      using k1 [of "[]"] src(1) kd by (auto simp: kind_at_def)
    have kc: "kind_at (Dir cs1) q = kind_at fs (src @ q)" for q
      using kind_at_append [OF cs1, of q] k1 by simp
    have "wf_node (Dir cs1)" using wf_lookup [OF fs1(2) cs1] .
    then have ns: "\<not> has_special (Dir cs1)"
      using has_special_kind(1) [of "Dir cs1"] kc nsp by auto
    have d1: "kind_at fs1 dst = None" using fs1(3) by simp
    have p1: "Path_is_dir fs1 (butlast dst)"
      using par fs1(3) not_prefix_butlast [OF ne] by (simp add: Path_is_dir_kind)
    obtain fs' where f: "copytree fs1 src dst = Inr fs'"
      "\<forall>p'. kind_at fs' p' =
           (if prefix dst p' then kind_at (Dir cs1) (drop (length dst) p') else kind_at fs1 p')"
      "wf_node fs'"
      using copytree_kind [OF cs1 d1 ns ind(1) ne p1] fs1(2) by blast
    have s: "sync_items fs src dst True = copytree fs1 src dst"
      using ex sd fs1(1) by (simp add: sync_items_def)
    have "kind_at fs' p' =
           (if prefix dst p' then kind_at fs (src @ drop (length dst) p') else kind_at fs p')" for p'
      using f(2) kc fs1(3) by simp
    with f(1,3) s show ?thesis by simp
  qed
qed

section \<open>The loops of the synchronisation\<close>

lemma roots_apart:
  assumes "\<not> prefix l r" and "\<not> prefix r l"
  shows "\<not> prefix (r @ a) (l @ b)" and "\<not> prefix (l @ a) (r @ b)"
proof -
  show "\<not> prefix (r @ a) (l @ b)"
  proof
    assume "prefix (r @ a) (l @ b)"
    then have "prefix r (l @ b)" using append_prefixD by blast
    moreover have "prefix l (l @ b)" by simp
    ultimately have "prefix r l \<or> prefix l r" by (rule prefix_same_cases)
    with assms show False by simp
  qed
  show "\<not> prefix (l @ a) (r @ b)"
  proof
    assume "prefix (l @ a) (r @ b)"
    then have "prefix l (r @ b)" using append_prefixD by blast
    moreover have "prefix r (r @ b)" by simp
    ultimately have "prefix l r \<or> prefix r l" by (rule prefix_same_cases)
    with assms show False by simp
  qed
qed

lemma copy_step:
  assumes ind: "\<not> prefix l r" "\<not> prefix r l"
    and c: "copyable K0 l r B q"
    and Bl: "\<forall>p. prefix l p \<longrightarrow> B p = K0 p"
    and wf: "wf_node fs"
    and st: "\<forall>p. kind_at fs p = copied K0 l r S B p"
  shows "\<exists>fs'. sync_items fs (l @ q) (r @ q) True = Inr fs' \<and> wf_node fs'
     \<and> (\<forall>p. kind_at fs' p = copied K0 l r (insert q S) B p)"
proof -
  have left: "kind_at fs (l @ t) = K0 (l @ t)" for t
    using st Bl roots_apart(1) [OF ind] by (simp add: copied_def)
  have ne: "q \<noteq> []" using c by (simp add: copyable_def)
  obtain k where k: "K0 (l @ q) = Some k" "k = KDir \<or> (\<exists>a. k = KFile a)"
    using c by (auto simp: copyable_def)
  have 1: "kind_at fs (l @ q) = Some k" using left [of q] k by simp
  have 2: "\<forall>t. kind_at fs ((l @ q) @ t) \<noteq> Some KSpecial"
    using left c by (simp add: copyable_def)
  have 3: "kind_at fs (r @ q) = None \<or> (k = KDir \<and> kind_at fs (r @ q) = Some KDir)
               \<or> (\<exists>a b. k = KFile a \<and> kind_at fs (r @ q) = Some (KFile b))"
  proof (cases "\<exists>q' \<in> S. prefix (r @ q') (r @ q)")
    case True
    then have "kind_at fs (r @ q) = Some k" using st k by (simp add: copied_def)
    then show ?thesis using k(2) by auto
  next
    case False
    then have "kind_at fs (r @ q) = B (r @ q)" using st by (simp add: copied_def)
    then show ?thesis using c k by (auto simp: copyable_def)
  qed
  have 4: "r @ q \<noteq> []" using ne by simp
  have bl: "butlast (r @ q) = r @ butlast q" using ne by (simp add: butlast_append)
  have 5: "Path_is_dir fs (butlast (r @ q))"
    unfolding bl Path_is_dir_kind using st c by (simp add: copied_def copyable_def)
  obtain fs' where f: "sync_items fs (l @ q) (r @ q) True = Inr fs'" "wf_node fs'"
    "\<forall>p'. kind_at fs' p' =
       (if prefix (r @ q) p' then kind_at fs ((l @ q) @ drop (length (r @ q)) p')
        else kind_at fs p')"
    using sync_items_kind [OF wf 1 k(2) 2 3 4 5 roots_apart(2) [OF ind] roots_apart(1) [OF ind]]
    by blast
  have "kind_at fs' p = copied K0 l r (insert q S) B p" for p
  proof (cases "prefix (r @ q) p")
    case True
    then obtain t where t: "p = r @ q @ t" by (auto simp: prefix_def)
    have "kind_at fs' p = K0 (l @ q @ t)" using f(3) True left [of "q @ t"] t by simp
    moreover have "copied K0 l r (insert q S) B p = K0 (l @ q @ t)"
      using True t by (simp add: copied_def)
    ultimately show ?thesis by simp
  next
    case False
    then show ?thesis using f(3) st by (simp add: copied_def)
  qed
  with f(1,2) show ?thesis by blast
qed

lemma copy_loop:
  assumes ind: "\<not> prefix l r" "\<not> prefix r l"
    and c: "\<forall>q \<in> set qs. copyable K0 l r B q"
    and Bl: "\<forall>p. prefix l p \<longrightarrow> B p = K0 p"
    and wf: "wf_node fs"
    and st: "\<forall>p. kind_at fs p = copied K0 l r S B p"
  shows "\<exists>fs'. for_each (\<lambda>pr fs. sync_items fs (fst pr) (snd pr) True)
                 (map (\<lambda>q. (l @ q, r @ q)) qs) fs = Inr fs'
     \<and> wf_node fs' \<and> (\<forall>p. kind_at fs' p = copied K0 l r (S \<union> set qs) B p)"
  using c wf st
proof (induction qs arbitrary: fs S)
  case Nil
  then show ?case by simp
next
  case (Cons q qs)
  have cq: "copyable K0 l r B q" and cqs: "\<forall>q \<in> set qs. copyable K0 l r B q"
    using Cons.prems(1) by simp_all
  obtain fs1 where f1: "sync_items fs (l @ q) (r @ q) True = Inr fs1" "wf_node fs1"
    "\<forall>p. kind_at fs1 p = copied K0 l r (insert q S) B p"
    using copy_step [OF ind cq Bl Cons.prems(2,3)] by blast
  obtain fs' where f': "for_each (\<lambda>pr fs. sync_items fs (fst pr) (snd pr) True)
                 (map (\<lambda>q. (l @ q, r @ q)) qs) fs1 = Inr fs'"
    "wf_node fs'" "\<forall>p. kind_at fs' p = copied K0 l r (insert q S \<union> set qs) B p"
    using Cons.IH [OF cqs f1(2,3)] by blast
  have "S \<union> set (q # qs) = insert q S \<union> set qs" by auto
  with f1(1) f' show ?case by simp
qed

lemma remove_loop:
  assumes ne: "\<forall>q \<in> set qs. q \<noteq> []"
    and wf: "wf_node fs"
    and st: "\<forall>p. kind_at fs p = removed r S B p"
  shows "\<exists>fs'. for_each (\<lambda>item fs. remove_item fs item) (map (\<lambda>q. r @ q) qs) fs = Inr fs'
     \<and> wf_node fs' \<and> (\<forall>p. kind_at fs' p = removed r (S \<union> set qs) B p)"
  using ne wf st
proof (induction qs arbitrary: fs S)
  case Nil
  then show ?case by simp
next
  case (Cons q qs)
  have nq: "r @ q \<noteq> []" and nqs: "\<forall>q \<in> set qs. q \<noteq> []"
    using Cons.prems(1) by simp_all
  obtain fs1 where f1: "remove_item fs (r @ q) = Inr fs1" "wf_node fs1"
    "\<forall>p'. kind_at fs1 p' = (if prefix (r @ q) p' then None else kind_at fs p')"
    using remove_item_kind [OF Cons.prems(2) nq] by blast
  have "\<forall>p. kind_at fs1 p = removed r (insert q S) B p"
    using f1(3) Cons.prems(3) by (simp add: removed_def)
  from Cons.IH [OF nqs f1(2) this] obtain fs' where f':
    "for_each (\<lambda>item fs. remove_item fs item) (map (\<lambda>q. r @ q) qs) fs1 = Inr fs'"
    "wf_node fs'" "\<forall>p. kind_at fs' p = removed r (insert q S \<union> set qs) B p"
    by blast
  have "S \<union> set (q # qs) = insert q S \<union> set qs" by auto
  with f1(1) f' show ?case by simp
qed

section \<open>The roots of a state\<close>

lemma roots_fold_left: "roots_of (fold left_diff_append ps s) = roots_of s"
  by (induction ps arbitrary: s) simp_all

lemma roots_fold_right: "roots_of (fold right_diff_append ps s) = roots_of s"
  by (induction ps arbitrary: s) simp_all

lemma roots_subfiles_loop: "roots_of (compare_subfiles_loop decodes md5 ls rs s) = roots_of s"
proof (induction decodes md5 ls rs s rule: compare_subfiles_loop.induct)
  case (1 decodes md5 l ls r rs self)
  then show ?case by (simp split: if_splits)
next
  case 2
  show ?case using roots_fold_left by simp
next
  case 3
  show ?case using roots_fold_right by simp
qed

lemma roots_subdirs_loop: "roots_of (snd (compare_subdirs_loop ls rs ns s)) = roots_of s"
proof (induction ls rs ns s rule: compare_subdirs_loop.induct)
  case (1 l ls r rs ns self)
  then show ?case by (simp split: if_splits)
next
  case 2
  show ?case using roots_fold_left by simp
next
  case 3
  show ?case using roots_fold_right by simp
qed

lemma roots_compare:
  shows "roots_of (compare_dir_contents decodes md5 l r s) = roots_of s"
    and "roots_of (compare_subdirs decodes md5 lc rc s) = roots_of s"
    and "roots_of (for_next_subdirs decodes md5 ns s) = roots_of s"
proof (induction decodes md5 l r s and decodes md5 lc rc s and decodes md5 ns s
       rule: compare_dir_contents_compare_subdirs_for_next_subdirs.induct)
  case (1 decodes md5 l r self)
  have cdc: "compare_dir_contents decodes md5 l r self
       = compare_subdirs decodes md5 (sorted_paths (iterdir l)) (sorted_paths (iterdir r))
           (compare_subfiles decodes md5 (sorted_paths (iterdir l)) (sorted_paths (iterdir r)) self)"
    by (simp del: compare_subdirs.simps)
  show ?case
    unfolding cdc using "1.IH" roots_subfiles_loop
    by (simp add: compare_subfiles_def del: compare_subdirs.simps)
next
  case (2 decodes md5 lc rc self)
  have cs: "compare_subdirs decodes md5 lc rc self
              = for_next_subdirs decodes md5
                  (fst (compare_subdirs_loop (dirs_in lc) (dirs_in rc) [] self))
                  (snd (compare_subdirs_loop (dirs_in lc) (dirs_in rc) [] self))"
    by simp
  show ?case
    unfolding cs using "2.IH" roots_subdirs_loop by simp
next
  case (3 decodes md5 self)
  show ?case by simp
next
  case (4 decodes md5 dir_entry next_subdirs self)
  have fn: "for_next_subdirs decodes md5 (dir_entry # next_subdirs) self
              = for_next_subdirs decodes md5 next_subdirs
                  (compare_dir_contents decodes md5 (fst dir_entry) (snd dir_entry) self)"
    by (simp del: compare_dir_contents.simps)
  show ?case
    unfolding fn using "4.IH" by (simp del: compare_dir_contents.simps)
qed

lemma compare_roots_paths:
  assumes "lookup fs l = Some (Dir lcs)" and "lookup fs r = Some (Dir rcs)"
    and "compare_roots decodes md5 fs l r pb = Inr self"
  shows "path (data_left (dirs_data self)) = l" and "path (data_right (dirs_data self)) = r"
  using assms(3) roots_compare(1) [of decodes md5 "(l, lcs)" "(r, rcs)"]
  unfolding compare_roots_eq [OF assms(1,2)]
  by (auto simp: DirsData_init_def DirData_init_def simp del: compare_dir_contents.simps)

lemma main_mirror:
  assumes "MirrorContents \<in> set flags" and "ReverseSyncDirection \<notin> set flags"
    and "compare_roots decodes md5 fs l r (HideProgressBar \<notin> set flags) = Inr fsync"
  shows "main decodes md5 (prepare_args_parser l r flags) fs =
     (case sync_one_way (path (data_left (dirs_data fsync))) (left_only fsync)
             (path (data_right (dirs_data fsync))) (right_only fsync)
             (hash_diffs fsync) True True True fs of
        Inl e \<Rightarrow> Inl e
      | Inr fs' \<Rightarrow> Inr (fsync, fs'))"
  using assms
  by (auto simp: main_def prepare_args_parser_def compare_roots_def sync_dirs_forward
        split: sum.splits)

section \<open>The lists of a comparison, by kind\<close>

lemma only_in_kind:
  "only_in A B q \<longleftrightarrow>
     q \<noteq> [] \<and> kind_at A (butlast q) = Some KDir \<and> kind_at B (butlast q) = Some KDir
     \<and> ((\<exists>a. kind_at A q = Some (KFile a)) \<and> (\<forall>b. kind_at B q \<noteq> Some (KFile b))
        \<or> kind_at A q = Some KDir \<and> kind_at B q \<noteq> Some KDir)"
  by (simp add: only_in_def Path_is_dir_kind Path_is_file_kind)

lemma kind_conflict_kind:
  "kind_conflict A B q \<longleftrightarrow>
     q \<noteq> [] \<and> kind_at A (butlast q) = Some KDir \<and> kind_at B (butlast q) = Some KDir
     \<and> ((\<exists>a. kind_at A q = Some (KFile a)) \<and> kind_at B q = Some KDir
        \<or> kind_at A q = Some KDir \<and> (\<exists>b. kind_at B q = Some (KFile b)))"
  by (simp add: kind_conflict_def Path_is_dir_kind Path_is_file_kind)

lemma differs_kind:
  "differs decodes md5 A B q \<longleftrightarrow>
     (\<exists>a b. kind_at A q = Some (KFile a) \<and> kind_at B q = Some (KFile b)
           \<and> \<not> verdict decodes md5 a b)"
  by (simp add: differs_iff lookup_File_kind)

lemma only_in_absent:
  assumes "only_in A B q" and "\<not> kind_conflict A B q"
    and "kind_at B q \<noteq> Some KSpecial"
  shows "kind_at B q = None"
proof (cases "kind_at B q")
  case None
  then show ?thesis .
next
  case (Some k)
  then show ?thesis
    using assms by (cases k) (auto simp: only_in_kind kind_conflict_kind)
qed

lemma prefix_dir_kind:
  assumes "kind_at A (q @ t) = Some k" and "t \<noteq> []"
  shows "kind_at A q = Some KDir"
proof -
  obtain v where "lookup A (q @ t) = Some v" using assms(1) by (auto simp: kind_at_def)
  from dir_above [OF assms(2) this] show ?thesis by (simp add: Path_is_dir_kind)
qed

lemma parent_dir_kind:
  assumes "kind_at A q = Some k" and "q \<noteq> []"
  shows "kind_at A (butlast q) = Some KDir"
  using prefix_dir_kind [of A "butlast q" "[last q]" k] assms by simp

lemma tri_kind:
  assumes nA: "\<forall>t. kind_at A t \<noteq> Some KSpecial" and nB: "\<forall>t. kind_at B t \<noteq> Some KSpecial"
    and root: "kind_at A [] = Some KDir" "kind_at B [] = Some KDir"
    and off: "\<forall>m. prefix m q \<longrightarrow> \<not> only_in A B m \<and> \<not> only_in B A m"
  shows "(kind_at A q = None \<and> kind_at B q = None)
       \<or> (kind_at A q = Some KDir \<and> kind_at B q = Some KDir)
       \<or> (\<exists>a b. kind_at A q = Some (KFile a) \<and> kind_at B q = Some (KFile b))"
  using off
proof (induction q rule: rev_induct)
  case Nil
  then show ?case using root by simp
next
  case (snoc x q)
  have "\<forall>m. prefix m q \<longrightarrow> \<not> only_in A B m \<and> \<not> only_in B A m"
    using snoc.prems by (simp add: prefix_order.trans)
  from snoc.IH [OF this] consider
      (none) "kind_at A q = None" "kind_at B q = None"
    | (both_dirs) "kind_at A q = Some KDir" "kind_at B q = Some KDir"
    | (both_files) a b where "kind_at A q = Some (KFile a)" "kind_at B q = Some (KFile b)"
    by auto
  then show ?case
  proof cases
    case none
    then show ?thesis by (simp add: kind_at_None_append)
  next
    case both_files
    then show ?thesis by (simp add: kind_at_leaf_append)
  next
    case both_dirs
    have o: "\<not> only_in A B (q @ [x])" "\<not> only_in B A (q @ [x])"
      using snoc.prems by simp_all
    have sa: "kind_at A (q @ [x]) \<noteq> Some KSpecial" and sb: "kind_at B (q @ [x]) \<noteq> Some KSpecial"
      using nA nB by simp_all
    show ?thesis
    proof (cases "kind_at A (q @ [x])")
      case None
      then show ?thesis
        using o(2) both_dirs sb
        by (cases "kind_at B (q @ [x])"; simp add: only_in_kind)
           (metis kind.exhaust)
    next
      case (Some k)
      then show ?thesis
        using o both_dirs sa sb
        by (cases k; cases "kind_at B (q @ [x])"; simp add: only_in_kind)
    qed
  qed
qed

lemma under_root_map:
  assumes "\<forall>x \<in> set xs. prefix l x"
  shows "map ((@) l) (map (drop (length l)) xs) = xs"
    and "set (map (drop (length l)) xs) = {q. l @ q \<in> set xs}"
proof -
  show "map ((@) l) (map (drop (length l)) xs) = xs"
    using assms by (induction xs) (auto simp: prefix_def)
  show "set (map (drop (length l)) xs) = {q. l @ q \<in> set xs}"
    using assms by (force simp: prefix_def image_iff)
qed

lemma under_roots_map:
  assumes "\<forall>h \<in> set hs. \<exists>q. h = (l @ q, r @ q)"
  shows "map (\<lambda>q. (l @ q, r @ q)) (map (\<lambda>h. drop (length l) (fst h)) hs) = hs"
    and "set (map (\<lambda>h. drop (length l) (fst h)) hs) = {q. (l @ q, r @ q) \<in> set hs}"
proof -
  show "map (\<lambda>q. (l @ q, r @ q)) (map (\<lambda>h. drop (length l) (fst h)) hs) = hs"
    using assms by (induction hs) auto
  show "set (map (\<lambda>h. drop (length l) (fst h)) hs) = {q. (l @ q, r @ q) \<in> set hs}"
    using assms by (force simp: image_iff)
qed

lemma kind_conflict_sym: "kind_conflict A B q \<longleftrightarrow> kind_conflict B A q"
  by (auto simp: kind_conflict_kind)

lemma add_loop_pairs:
  "for_each (\<lambda>item fs. case relative_to item l of
                          Inl e \<Rightarrow> Inl e
                        | Inr rel \<Rightarrow> sync_items fs item (r @ rel) True)
     (map ((@) l) qs) fs
   = for_each (\<lambda>pr fs. sync_items fs (fst pr) (snd pr) True) (map (\<lambda>q. (l @ q, r @ q)) qs) fs"
proof -
  have "relative_to (l @ q) l = Inr q" for q by (simp add: relative_to_iff)
  then show ?thesis by (simp add: for_each_map)
qed

lemma mirror_kinds:
  assumes wf: "wf_node fs"
    and lL: "lookup fs l = Some (Dir lcs)" and lR: "lookup fs r = Some (Dir rcs)"
    and ind: "\<not> prefix l r" "\<not> prefix r l"
    and nL: "\<forall>q. kind_at (Dir lcs) q \<noteq> Some KSpecial"
    and nR: "\<forall>q. kind_at (Dir rcs) q \<noteq> Some KSpecial"
    and noc: "\<forall>q. \<not> kind_conflict (Dir lcs) (Dir rcs) q"
    and xs: "set xs = {l @ q | q. only_in (Dir lcs) (Dir rcs) q}"
    and ys: "set ys = {r @ q | q. only_in (Dir rcs) (Dir lcs) q}"
    and hs: "set hs = {(l @ q, r @ q) | q. differs decodes md5 (Dir lcs) (Dir rcs) q}"
  shows "\<exists>fs'. sync_one_way l xs r ys hs True True True fs = Inr fs' \<and> wf_node fs'
     \<and> (\<forall>q. kind_at fs' (l @ q) = kind_at (Dir lcs) q)
     \<and> (\<forall>q. kind_at fs' (r @ q) = kind_at (Dir lcs) q
            \<or> (\<exists>a b. kind_at (Dir lcs) q = Some (KFile a)
                     \<and> kind_at fs' (r @ q) = Some (KFile b) \<and> verdict decodes md5 a b))"
proof -
  let ?K0 = "kind_at fs"
  let ?L = "Dir lcs" and ?R = "Dir rcs"
  have kl: "?K0 (l @ q) = kind_at ?L q" for q by (rule kind_at_append [OF lL])
  have kr: "?K0 (r @ q) = kind_at ?R q" for q by (rule kind_at_append [OF lR])
  have apart: "\<not> prefix (r @ a) (l @ b)" for a b by (rule roots_apart(1) [OF ind])
  define A where "A = {q. only_in ?L ?R q}"
  define M where "M = {q. only_in ?R ?L q}"
  define H where "H = {q. differs decodes md5 ?L ?R q}"
  define qa where "qa = map (drop (length l)) xs"
  define qm where "qm = map (drop (length r)) ys"
  define qh where "qh = map (\<lambda>h. drop (length l) (fst h)) hs"
  have "\<forall>x \<in> set xs. prefix l x" using xs by auto
  from under_root_map [OF this] have xa: "map ((@) l) qa = xs" "set qa = A"
    by (simp_all add: qa_def A_def xs)
  have "\<forall>x \<in> set ys. prefix r x" using ys by auto
  from under_root_map [OF this] have ym: "map ((@) r) qm = ys" "set qm = M"
    by (simp_all add: qm_def M_def ys)
  have "\<forall>h \<in> set hs. \<exists>q. h = (l @ q, r @ q)" using hs by auto
  from under_roots_map [OF this] have hh: "map (\<lambda>q. (l @ q, r @ q)) qh = hs" "set qh = H"
    by (simp_all add: qh_def H_def hs)

  have absentR: "kind_at ?R q = None" if "q \<in> A" for q
    using only_in_absent [of ?L ?R q] that noc nR by (simp add: A_def)
  have absentL: "kind_at ?L q = None" if "q \<in> M" for q
    using only_in_absent [of ?R ?L q] that noc nL kind_conflict_sym [of ?R ?L q]
    by (simp add: M_def)
  have notM: "\<not> (\<exists>m \<in> M. prefix m t)" if "kind_at ?L t \<noteq> None" for t
  proof
    assume "\<exists>m \<in> M. prefix m t"
    then obtain m t' where m: "m \<in> M" "t = m @ t'" by (auto simp: prefix_def)
    have "kind_at ?L (m @ t') = None" using kind_at_None_append [OF absentL [OF m(1)]] .
    with that m(2) show False by simp
  qed

  have ca: "\<forall>q \<in> set qa. copyable ?K0 l r ?K0 q"
  proof
    fix q assume "q \<in> set qa"
    then have q: "q \<in> A" using xa(2) by simp
    then have o: "only_in ?L ?R q" by (simp add: A_def)
    show "copyable ?K0 l r ?K0 q"
      unfolding copyable_def kl kr
      using o absentR [OF q] nL by (auto simp: only_in_kind)
  qed
  have st0: "\<forall>p. kind_at fs p = copied ?K0 l r {} ?K0 p" by (simp add: copied_def)
  obtain fs1 where f1:
      "for_each (\<lambda>pr fs. sync_items fs (fst pr) (snd pr) True)
         (map (\<lambda>q. (l @ q, r @ q)) qa) fs = Inr fs1"
      "wf_node fs1" "\<forall>p. kind_at fs1 p = copied ?K0 l r A ?K0 p"
    using copy_loop [OF ind ca _ wf st0] xa(2) by auto

  define K1 where "K1 = copied ?K0 l r A ?K0"
  have nm: "\<forall>q \<in> set qm. q \<noteq> []" using ym(2) by (auto simp: M_def)
  have st1: "\<forall>p. kind_at fs1 p = removed r {} K1 p" using f1(3) by (simp add: removed_def K1_def)
  obtain fs2 where f2:
      "for_each (\<lambda>item fs. remove_item fs item) (map (\<lambda>q. r @ q) qm) fs1 = Inr fs2"
      "wf_node fs2" "\<forall>p. kind_at fs2 p = removed r M K1 p"
    using remove_loop [OF nm f1(2) st1] ym(2) by auto

  define K2 where "K2 = removed r M K1"
  have K2l: "K2 (l @ t) = kind_at ?L t" for t
    using apart by (simp add: K2_def K1_def removed_def copied_def kl)
  have K2r: "K2 (r @ t) = (if \<exists>m \<in> M. prefix m t then None
                           else if \<exists>a \<in> A. prefix a t then kind_at ?L t else kind_at ?R t)" for t
    by (simp add: K2_def K1_def removed_def copied_def kl kr)
  have Bl2: "\<forall>p. prefix l p \<longrightarrow> K2 p = ?K0 p"
    using K2l kl by (auto simp: prefix_def)

  have ch: "\<forall>q \<in> set qh. copyable ?K0 l r K2 q"
  proof
    fix q assume "q \<in> set qh"
    then have "differs decodes md5 ?L ?R q" using hh(2) by (simp add: H_def)
    then obtain a b where ab: "kind_at ?L q = Some (KFile a)" "kind_at ?R q = Some (KFile b)"
      by (auto simp: differs_kind)
    have ne: "q \<noteq> []" using ab(1) by auto
    have pl: "kind_at ?L (butlast q) = Some KDir" by (rule parent_dir_kind [OF ab(1) ne])
    have pr: "kind_at ?R (butlast q) = Some KDir" by (rule parent_dir_kind [OF ab(2) ne])
    have 1: "K2 (r @ butlast q) = Some KDir"
      unfolding K2r using notM [of "butlast q"] pl pr by simp
    have 2: "\<exists>b'. K2 (r @ q) = Some (KFile b')"
      unfolding K2r using notM [of q] ab by simp
    show "copyable ?K0 l r K2 q"
      unfolding copyable_def kl
      using ne ab(1) nL pl 1 2 by auto
  qed
  have st2: "\<forall>p. kind_at fs2 p = copied ?K0 l r {} K2 p"
    using f2(3) by (simp add: copied_def K2_def)
  obtain fs3 where f3:
      "for_each (\<lambda>pr fs. sync_items fs (fst pr) (snd pr) True)
         (map (\<lambda>q. (l @ q, r @ q)) qh) fs2 = Inr fs3"
      "wf_node fs3" "\<forall>p. kind_at fs3 p = copied ?K0 l r H K2 p"
    using copy_loop [OF ind ch Bl2 f2(2) st2] hh(2) by auto

  have run: "sync_one_way l xs r ys hs True True True fs = Inr fs3"
    unfolding sync_one_way_def xa(1) [symmetric] ym(1) [symmetric] hh(1) [symmetric]
      add_loop_pairs
    using f1(1) f2(1) f3(1) by simp

  have left: "kind_at fs3 (l @ q) = kind_at ?L q" for q
    using f3(3) apart K2l by (simp add: copied_def)
  have right: "kind_at fs3 (r @ q) = kind_at ?L q
            \<or> (\<exists>a b. kind_at ?L q = Some (KFile a)
                     \<and> kind_at fs3 (r @ q) = Some (KFile b) \<and> verdict decodes md5 a b)" for q
  proof -
    have k3: "kind_at fs3 (r @ q) = (if \<exists>h \<in> H. prefix h q then kind_at ?L q else K2 (r @ q))"
      using f3(3) by (simp add: copied_def kl)
    consider (h) "\<exists>h \<in> H. prefix h q"
      | (m) "\<not> (\<exists>h \<in> H. prefix h q)" "\<exists>m \<in> M. prefix m q"
      | (a) "\<not> (\<exists>h \<in> H. prefix h q)" "\<not> (\<exists>m \<in> M. prefix m q)" "\<exists>a \<in> A. prefix a q"
      | (none) "\<not> (\<exists>h \<in> H. prefix h q)" "\<not> (\<exists>m \<in> M. prefix m q)"
          "\<not> (\<exists>a \<in> A. prefix a q)"
      by blast
    then show ?thesis
    proof cases
      case h
      then show ?thesis using k3 by simp
    next
      case m
      have "kind_at ?L q = None" using notM [of q] m(2) by blast
      then show ?thesis using k3 m K2r [of q] by simp
    next
      case a
      then show ?thesis using k3 K2r [of q] by simp
    next
      case none
      have e: "kind_at fs3 (r @ q) = kind_at ?R q" using k3 K2r [of q] none by simp
      have off: "\<forall>m. prefix m q \<longrightarrow> \<not> only_in ?L ?R m \<and> \<not> only_in ?R ?L m"
        using none(2,3) by (auto simp: A_def M_def)
      have nd: "\<not> differs decodes md5 ?L ?R q" using none(1) by (auto simp: H_def)
      from tri_kind [OF nL nR _ _ off]
      show ?thesis unfolding e using nd by (auto simp: differs_kind)
    qed
  qed
  from run f3(2) left right show ?thesis by blast
qed

lemma no_special_kind: "\<not> has_special c \<Longrightarrow> kind_at c q \<noteq> Some KSpecial"
proof (induction q arbitrary: c)
  case Nil
  then show ?case by (cases c) simp_all
next
  case (Cons x p)
  show ?case
  proof (cases c)
    case (Dir cs)
    show ?thesis
    proof (cases "map_of cs x")
      case None
      then show ?thesis using Dir by (simp add: kind_at_Cons)
    next
      case (Some c')
      have "(x, c') \<in> set cs" using Some by (rule map_of_SomeD)
      then have "\<not> has_special c'"
        using Cons.prems Dir by (auto simp: has_special_children_iff)
      from Cons.IH [OF this] show ?thesis using Dir Some by (simp add: kind_at_Cons)
    qed
  qed simp_all
qed

lemma verdict_refl: "verdict decodes md5 a a"
  by (simp add: verdict_iff)

lemma agree_compare_empty:
  assumes wf: "wf_node fs"
    and lL: "lookup fs l = Some (Dir lcs)" and lR: "lookup fs r = Some (Dir rcs)"
    and agree: "\<forall>q. kind_at fs (r @ q) = kind_at fs (l @ q)
            \<or> (\<exists>a b. kind_at fs (l @ q) = Some (KFile a)
                     \<and> kind_at fs (r @ q) = Some (KFile b) \<and> verdict decodes md5 a b)"
  shows "\<exists>again. compare_roots decodes md5 fs l r pb = Inr again
     \<and> left_only again = [] \<and> right_only again = [] \<and> hash_diffs again = []"
proof -
  have kl: "kind_at fs (l @ q) = kind_at (Dir lcs) q" for q by (rule kind_at_append [OF lL])
  have kr: "kind_at fs (r @ q) = kind_at (Dir rcs) q" for q by (rule kind_at_append [OF lR])
  have ag: "kind_at (Dir rcs) q = kind_at (Dir lcs) q
            \<or> (\<exists>a b. kind_at (Dir lcs) q = Some (KFile a)
                     \<and> kind_at (Dir rcs) q = Some (KFile b) \<and> verdict decodes md5 a b)" for q
    using agree kl kr by simp
  have 1: "\<not> only_in (Dir lcs) (Dir rcs) q" for q
    using ag [of q] by (auto simp: only_in_kind)
  have 2: "\<not> only_in (Dir rcs) (Dir lcs) q" for q
    using ag [of q] by (auto simp: only_in_kind) metis
  have 3: "\<not> differs decodes md5 (Dir lcs) (Dir rcs) q" for q
    using ag [of q] verdict_refl [of decodes md5] by (auto simp: differs_kind)
  obtain again where a: "compare_roots decodes md5 fs l r pb = Inr again"
      "set (left_only again) = {l @ q | q. only_in (Dir lcs) (Dir rcs) q}"
      "set (right_only again) = {r @ q | q. only_in (Dir rcs) (Dir lcs) q}"
      "set (hash_diffs again) = {(l @ q, r @ q) | q. differs decodes md5 (Dir lcs) (Dir rcs) q}"
    using compare_roots_sets [OF wf lL lR, of decodes md5 pb] by blast
  have "left_only again = []" "right_only again = []" "hash_diffs again = []"
    using a(2,3,4) 1 2 3 by simp_all
  with a(1) show ?thesis by simp
qed

lemma disjoint_no_conflict:
  assumes "set xs = {l @ q | q. only_in A B q}" and "set ys = {r @ q | q. only_in B A q}"
    and "relative_paths l xs \<inter> relative_paths r ys = {}"
  shows "\<not> kind_conflict A B q"
proof
  assume "kind_conflict A B q"
  then have "only_in A B q" "only_in B A q" using only_in_both [of A B q] by simp_all
  then have "l @ q \<in> set xs" "r @ q \<in> set ys" using assms(1,2) by auto
  then have "q \<in> relative_paths l xs \<inter> relative_paths r ys"
    by (simp add: relative_paths_iff)
  with assms(3) show False by simp
qed

section \<open>The three lists\<close>

text \<open>
  Claim C1, as amended. For two roots that are directories of a well-formed filesystem
  the comparison returns, and every listed entry lies under its root. By relative path,
  the list of paired differences is disjoint from the left-only list and from the
  right-only list. The left-only and the right-only list share exactly the relative
  paths that are a regular file on one side and a directory on the other, in a
  directory that exists on both sides.
\<close>

theorem diff_lists_disjoint:
  assumes "wf_node fs" and "lookup fs l = Some L" and "lookup fs r = Some R"
    and "Path_is_dir fs l" and "Path_is_dir fs r"
  shows "\<exists>self. compare_roots decodes md5 fs l r pb = Inr self
     \<and> (\<forall>p \<in> set (left_only self). \<exists>q. relative_to p l = Inr q)
     \<and> (\<forall>p \<in> set (right_only self). \<exists>q. relative_to p r = Inr q)
     \<and> (\<forall>ab \<in> set (hash_diffs self).
           \<exists>q. relative_to (fst ab) l = Inr q \<and> relative_to (snd ab) r = Inr q)
     \<and> relative_paths l (map fst (hash_diffs self)) = relative_paths r (map snd (hash_diffs self))
     \<and> relative_paths l (map fst (hash_diffs self)) \<inter> relative_paths l (left_only self) = {}
     \<and> relative_paths r (map snd (hash_diffs self)) \<inter> relative_paths r (right_only self) = {}
     \<and> relative_paths l (left_only self) \<inter> relative_paths r (right_only self)
         = {q. kind_conflict L R q}"
proof -
  obtain lcs rcs where L: "L = Dir lcs" and R: "R = Dir rcs"
    using assms(2-5) by (auto simp: Path_is_dir_lookup)
  obtain self where run: "compare_roots decodes md5 fs l r pb = Inr self"
    and lo: "set (left_only self) = {l @ q | q. only_in L R q}"
    and ro: "set (right_only self) = {r @ q | q. only_in R L q}"
    and hd: "set (hash_diffs self) = {(l @ q, r @ q) | q. differs decodes md5 L R q}"
    using compare_roots_sets [OF assms(1), of l lcs r rcs decodes md5 pb] assms(2,3)
    unfolding L R by blast
  have rl: "relative_paths l (left_only self) = {q. only_in L R q}"
    and rr: "relative_paths r (right_only self) = {q. only_in R L q}"
    and hl: "relative_paths l (map fst (hash_diffs self)) = {q. differs decodes md5 L R q}"
    and hr: "relative_paths r (map snd (hash_diffs self)) = {q. differs decodes md5 L R q}"
    by (auto simp: relative_paths_iff lo ro hd image_iff)
  have 1: "\<forall>p \<in> set (left_only self). \<exists>q. relative_to p l = Inr q"
    and 2: "\<forall>p \<in> set (right_only self). \<exists>q. relative_to p r = Inr q"
    and 3: "\<forall>ab \<in> set (hash_diffs self).
           \<exists>q. relative_to (fst ab) l = Inr q \<and> relative_to (snd ab) r = Inr q"
    by (auto simp: lo ro hd relative_to_iff)
  have 4: "relative_paths l (map fst (hash_diffs self)) \<inter> relative_paths l (left_only self) = {}"
    unfolding hl rl using only_in_not_differs [of L R _ decodes md5] by blast
  have 5: "relative_paths r (map snd (hash_diffs self)) \<inter> relative_paths r (right_only self) = {}"
    unfolding hr rr using only_in_not_differs' [of R L _ decodes md5] by blast
  have 6: "relative_paths l (left_only self) \<inter> relative_paths r (right_only self)
         = {q. kind_conflict L R q}"
    unfolding rl rr using only_in_both [of L R] by blast
  have 7: "relative_paths l (map fst (hash_diffs self)) = relative_paths r (map snd (hash_diffs self))"
    unfolding hl hr ..
  show ?thesis
    by (rule exI [of _ self]) (intro conjI run 1 2 3 4 5 6 7)
qed

text \<open>
  Claim C1 as stated fails: with a regular file \<open>x\<close> under the left root and a directory
  \<open>x\<close> under the right root, the relative path \<open>x\<close> is on the left-only list and on the
  right-only list.
\<close>

theorem left_and_right_only_share_a_path:
  "compare_roots (\<lambda>bs. True) (\<lambda>bs. bs)
     (Dir [(''L'', Dir [(''x'', File [1])]), (''R'', Dir [(''x'', Dir [])])]) [''L''] [''R''] False
     = Inr \<lparr>dirs_data = \<lparr>data_left = \<lparr>path = [''L''], diff = [[''L'', ''x'']]\<rparr>,
                          data_right = \<lparr>path = [''R''], diff = [[''R'', ''x'']]\<rparr>,
                          hash_diff = []\<rparr>,
             progress_bar = False\<rparr>
   \<and> relative_to [''L'', ''x''] [''L''] = Inr [''x'']
   \<and> relative_to [''R'', ''x''] [''R''] = Inr [''x'']"
  by (simp add: compare_roots_def eval_defs)

theorem diff_lists_disjoint_witness:
  "wf_node (Dir [(''L'', Dir [(''a'', File [1]), (''b'', File [2]), (''x'', File [])]),
                 (''R'', Dir [(''b'', File [3]), (''x'', Dir [])])])
   \<and> Path_is_dir (Dir [(''L'', Dir [(''a'', File [1]), (''b'', File [2]), (''x'', File [])]),
                       (''R'', Dir [(''b'', File [3]), (''x'', Dir [])])]) [''L'']
   \<and> Path_is_dir (Dir [(''L'', Dir [(''a'', File [1]), (''b'', File [2]), (''x'', File [])]),
                       (''R'', Dir [(''b'', File [3]), (''x'', Dir [])])]) [''R'']
   \<and> compare_roots (\<lambda>bs. True) (\<lambda>bs. bs)
        (Dir [(''L'', Dir [(''a'', File [1]), (''b'', File [2]), (''x'', File [])]),
              (''R'', Dir [(''b'', File [3]), (''x'', Dir [])])]) [''L''] [''R''] False
       = Inr \<lparr>dirs_data =
                \<lparr>data_left = \<lparr>path = [''L''], diff = [[''L'', ''a''], [''L'', ''x'']]\<rparr>,
                 data_right = \<lparr>path = [''R''], diff = [[''R'', ''x'']]\<rparr>,
                 hash_diff = [([''L'', ''b''], [''R'', ''b''])]\<rparr>,
               progress_bar = False\<rparr>
   \<and> relative_paths [''L''] (map fst [([''L'', ''b''], [''R'', ''b''])])
         \<inter> relative_paths [''L''] [[''L'', ''a''], [''L'', ''x'']] = {}
   \<and> relative_paths [''R''] (map snd [([''L'', ''b''], [''R'', ''b''])])
         \<inter> relative_paths [''R''] [[''R'', ''x'']] = {}
   \<and> relative_paths [''L''] [[''L'', ''a''], [''L'', ''x'']] \<inter> relative_paths [''R''] [[''R'', ''x'']]
       = {q. kind_conflict (Dir [(''a'', File [1]), (''b'', File [2]), (''x'', File [])])
               (Dir [(''b'', File [3]), (''x'', Dir [])]) q}"
proof -
  let ?fs = "Dir [(''L'', Dir [(''a'', File [1]), (''b'', File [2]), (''x'', File [])]),
                  (''R'', Dir [(''b'', File [3]), (''x'', Dir [])])]"
  have h1: "wf_node ?fs" by simp
  have h2: "lookup ?fs [''L''] = Some (Dir [(''a'', File [1]), (''b'', File [2]), (''x'', File [])])"
    and h3: "lookup ?fs [''R''] = Some (Dir [(''b'', File [3]), (''x'', Dir [])])"
    by simp_all
  have h4: "Path_is_dir ?fs [''L'']" and h5: "Path_is_dir ?fs [''R'']"
    by (simp_all add: Path_is_dir_def)
  have run: "compare_roots (\<lambda>bs. True) (\<lambda>bs. bs) ?fs [''L''] [''R''] False
       = Inr \<lparr>dirs_data =
                \<lparr>data_left = \<lparr>path = [''L''], diff = [[''L'', ''a''], [''L'', ''x'']]\<rparr>,
                 data_right = \<lparr>path = [''R''], diff = [[''R'', ''x'']]\<rparr>,
                 hash_diff = [([''L'', ''b''], [''R'', ''b''])]\<rparr>,
               progress_bar = False\<rparr>"
    by (simp add: compare_roots_def eval_defs)
  obtain self where s: "compare_roots (\<lambda>bs. True) (\<lambda>bs. bs) ?fs [''L''] [''R''] False = Inr self"
    and a: "relative_paths [''L''] (map fst (hash_diffs self))
              \<inter> relative_paths [''L''] (left_only self) = {}"
    and b: "relative_paths [''R''] (map snd (hash_diffs self))
              \<inter> relative_paths [''R''] (right_only self) = {}"
    and c: "relative_paths [''L''] (left_only self) \<inter> relative_paths [''R''] (right_only self)
              = {q. kind_conflict (Dir [(''a'', File [1]), (''b'', File [2]), (''x'', File [])])
                      (Dir [(''b'', File [3]), (''x'', Dir [])]) q}"
    using diff_lists_disjoint [OF h1 h2 h3 h4 h5, of "\<lambda>bs. True" "\<lambda>bs. bs" False]
    by blast
  have e: "self = \<lparr>dirs_data =
                \<lparr>data_left = \<lparr>path = [''L''], diff = [[''L'', ''a''], [''L'', ''x'']]\<rparr>,
                 data_right = \<lparr>path = [''R''], diff = [[''R'', ''x'']]\<rparr>,
                 hash_diff = [([''L'', ''b''], [''R'', ''b''])]\<rparr>,
               progress_bar = False\<rparr>"
    using s run by simp
  have a': "relative_paths [''L''] (map fst [([''L'', ''b''], [''R'', ''b''])])
         \<inter> relative_paths [''L''] [[''L'', ''a''], [''L'', ''x'']] = {}"
    using a unfolding e by simp
  have b': "relative_paths [''R''] (map snd [([''L'', ''b''], [''R'', ''b''])])
         \<inter> relative_paths [''R''] [[''R'', ''x'']] = {}"
    using b unfolding e by simp
  have c': "relative_paths [''L''] [[''L'', ''a''], [''L'', ''x'']] \<inter> relative_paths [''R''] [[''R'', ''x'']]
       = {q. kind_conflict (Dir [(''a'', File [1]), (''b'', File [2]), (''x'', File [])])
               (Dir [(''b'', File [3]), (''x'', Dir [])]) q}"
    using c unfolding e by simp
  from h1 h4 h5 run a' b' c' show ?thesis by (intro conjI)
qed

section \<open>Subdirectories without a match\<close>

text \<open>
  Claim C5. A directory of one side that is no directory of the other side, in a
  directory that exists on both sides, is on its side's \<open>-only\<close> list, and nothing below
  it is on a list of its side: neither on the \<open>-only\<close> list nor as a member of a pair.
  Every listed entry lies in a directory that exists on both sides: only matched
  directories are entered. The witness is scenario C of the specification: \<open>sub/x.txt\<close>
  on the left, no \<open>sub\<close> on the right, and the left-only list is \<open>[sub]\<close>.
\<close>

theorem unmatched_subdir_listed_whole:
  assumes "wf_node fs" and "lookup fs l = Some L" and "lookup fs r = Some R"
    and "Path_is_dir fs l" and "Path_is_dir fs r"
  shows "\<exists>self. compare_roots decodes md5 fs l r pb = Inr self
     \<and> (\<forall>q. unmatched_dir L R q \<longrightarrow>
           l @ q \<in> set (left_only self)
           \<and> (\<forall>q'. q' \<noteq> [] \<longrightarrow> l @ q @ q' \<notin> set (left_only self)
                     \<and> l @ q @ q' \<notin> fst ` set (hash_diffs self)))
     \<and> (\<forall>q. unmatched_dir R L q \<longrightarrow>
           r @ q \<in> set (right_only self)
           \<and> (\<forall>q'. q' \<noteq> [] \<longrightarrow> r @ q @ q' \<notin> set (right_only self)
                     \<and> r @ q @ q' \<notin> snd ` set (hash_diffs self)))
     \<and> (\<forall>q. l @ q \<in> set (left_only self) \<or> r @ q \<in> set (right_only self)
             \<or> l @ q \<in> fst ` set (hash_diffs self) \<or> r @ q \<in> snd ` set (hash_diffs self)
           \<longrightarrow> q \<noteq> [] \<and> Path_is_dir L (butlast q) \<and> Path_is_dir R (butlast q))"
proof -
  obtain lcs rcs where L: "L = Dir lcs" and R: "R = Dir rcs"
    using assms(2-5) by (auto simp: Path_is_dir_lookup)
  obtain self where run: "compare_roots decodes md5 fs l r pb = Inr self"
    and lo: "set (left_only self) = {l @ q | q. only_in L R q}"
    and ro: "set (right_only self) = {r @ q | q. only_in R L q}"
    and hd: "set (hash_diffs self) = {(l @ q, r @ q) | q. differs decodes md5 L R q}"
    using compare_roots_sets [OF assms(1), of l lcs r rcs decodes md5 pb] assms(2,3)
    unfolding L R by blast
  have lo': "l @ q \<in> set (left_only self) \<longleftrightarrow> only_in L R q"
    and ro': "r @ q \<in> set (right_only self) \<longleftrightarrow> only_in R L q"
    and hl': "l @ q \<in> fst ` set (hash_diffs self) \<longleftrightarrow> differs decodes md5 L R q"
    and hr': "r @ q \<in> snd ` set (hash_diffs self) \<longleftrightarrow> differs decodes md5 L R q" for q
    unfolding lo ro hd by (simp_all only: mem_under mem_under_fst mem_under_snd)
  have a: "l @ q \<in> set (left_only self)
           \<and> (\<forall>q'. q' \<noteq> [] \<longrightarrow> l @ q @ q' \<notin> set (left_only self)
                     \<and> l @ q @ q' \<notin> fst ` set (hash_diffs self))"
    if "unmatched_dir L R q" for q
  proof -
    have "only_in L R q" and n: "\<not> Path_is_dir R q"
      using that by (auto simp: unmatched_dir_def only_in_def)
    then show ?thesis
      using nothing_below_left(1,2) [OF n, where A = L] by (simp add: lo' hl')
  qed
  have b: "r @ q \<in> set (right_only self)
           \<and> (\<forall>q'. q' \<noteq> [] \<longrightarrow> r @ q @ q' \<notin> set (right_only self)
                     \<and> r @ q @ q' \<notin> snd ` set (hash_diffs self))"
    if "unmatched_dir R L q" for q
  proof -
    have "only_in R L q" and n: "\<not> Path_is_dir L q"
      using that by (auto simp: unmatched_dir_def only_in_def)
    then show ?thesis
      using nothing_below_left(1,4) [OF n, where A = R] by (simp add: ro' hr')
  qed
  have c: "q \<noteq> [] \<and> Path_is_dir L (butlast q) \<and> Path_is_dir R (butlast q)"
    if h: "l @ q \<in> set (left_only self) \<or> r @ q \<in> set (right_only self)
             \<or> l @ q \<in> fst ` set (hash_diffs self) \<or> r @ q \<in> snd ` set (hash_diffs self)" for q
  proof -
    consider "only_in L R q" | "only_in R L q" | "differs decodes md5 L R q"
      using h unfolding lo' ro' hl' hr' by blast
    then show ?thesis
    proof cases
      case 3
      then obtain a b where f: "lookup L q = Some (File a)" "lookup R q = Some (File b)"
        by (auto simp: differs_iff)
      then have ne: "q \<noteq> []" using L by auto
      have "Path_is_dir L (butlast q)" "Path_is_dir R (butlast q)"
        using dir_above [of "[last q]" L "butlast q"] dir_above [of "[last q]" R "butlast q"] f ne
        by simp_all
      with ne show ?thesis by simp
    qed (auto simp: only_in_def)
  qed
  show ?thesis
    by (rule exI [of _ self]) (use run a b c in blast)
qed

theorem unmatched_subdir_listed_whole_witness:
  "wf_node (Dir [(''L'', Dir [(''sub'', Dir [(''x.txt'', File [104, 105])])]), (''R'', Dir [])])
   \<and> unmatched_dir (Dir [(''sub'', Dir [(''x.txt'', File [104, 105])])]) (Dir []) [''sub'']
   \<and> compare_roots (\<lambda>bs. True) (\<lambda>bs. bs)
        (Dir [(''L'', Dir [(''sub'', Dir [(''x.txt'', File [104, 105])])]), (''R'', Dir [])])
        [''L''] [''R''] False
       = Inr \<lparr>dirs_data = \<lparr>data_left = \<lparr>path = [''L''], diff = [[''L'', ''sub'']]\<rparr>,
                            data_right = \<lparr>path = [''R''], diff = []\<rparr>,
                            hash_diff = []\<rparr>,
               progress_bar = False\<rparr>
   \<and> [''L'', ''sub''] \<in> set [[''L'', ''sub'']]
   \<and> [''L'', ''sub'', ''x.txt''] \<notin> set [[''L'', ''sub'']]"
proof -
  let ?fs = "Dir [(''L'', Dir [(''sub'', Dir [(''x.txt'', File [104, 105])])]), (''R'', Dir [])]"
  have h1: "wf_node ?fs" by simp
  have h2: "lookup ?fs [''L''] = Some (Dir [(''sub'', Dir [(''x.txt'', File [104, 105])])])"
    and h3: "lookup ?fs [''R''] = Some (Dir [])"
    by simp_all
  have h4: "Path_is_dir ?fs [''L'']" and h5: "Path_is_dir ?fs [''R'']"
    by (simp_all add: Path_is_dir_def)
  have u: "unmatched_dir (Dir [(''sub'', Dir [(''x.txt'', File [104, 105])])]) (Dir []) [''sub'']"
    by (simp add: unmatched_dir_def Path_is_dir_def)
  have run: "compare_roots (\<lambda>bs. True) (\<lambda>bs. bs) ?fs [''L''] [''R''] False
       = Inr \<lparr>dirs_data = \<lparr>data_left = \<lparr>path = [''L''], diff = [[''L'', ''sub'']]\<rparr>,
                            data_right = \<lparr>path = [''R''], diff = []\<rparr>,
                            hash_diff = []\<rparr>,
               progress_bar = False\<rparr>"
    by (simp add: compare_roots_def eval_defs)
  obtain self where s: "compare_roots (\<lambda>bs. True) (\<lambda>bs. bs) ?fs [''L''] [''R''] False = Inr self"
    and a: "\<forall>q. unmatched_dir (Dir [(''sub'', Dir [(''x.txt'', File [104, 105])])]) (Dir []) q \<longrightarrow>
           [''L''] @ q \<in> set (left_only self)
           \<and> (\<forall>q'. q' \<noteq> [] \<longrightarrow> [''L''] @ q @ q' \<notin> set (left_only self)
                     \<and> [''L''] @ q @ q' \<notin> fst ` set (hash_diffs self))"
    using unmatched_subdir_listed_whole [OF h1 h2 h3 h4 h5, of "\<lambda>bs. True" "\<lambda>bs. bs" False]
    by blast
  have e: "self = \<lparr>dirs_data = \<lparr>data_left = \<lparr>path = [''L''], diff = [[''L'', ''sub'']]\<rparr>,
                            data_right = \<lparr>path = [''R''], diff = []\<rparr>,
                            hash_diff = []\<rparr>,
               progress_bar = False\<rparr>"
    using s run by simp
  have "[''L''] @ [''sub''] \<in> set (left_only self)"
    and "[''L''] @ [''sub''] @ [''x.txt''] \<notin> set (left_only self)"
    using a u by blast+
  then have m: "[''L'', ''sub''] \<in> set [[''L'', ''sub'']]"
    and n: "[''L'', ''sub'', ''x.txt''] \<notin> set [[''L'', ''sub'']]"
    unfolding e by simp_all
  from h1 u run m n show ?thesis by (intro conjI)
qed

section \<open>A file and a directory of one name\<close>

text \<open>
  Claim C9. In a directory that exists on both sides, a name that is a regular file on
  one side and a directory on the other puts the file on its side's \<open>-only\<close> list and the
  directory on the other side's \<open>-only\<close> list. Neither is a member of a pair of the
  differences list, and nothing below the directory is listed.
\<close>

theorem file_and_directory_of_one_name:
  assumes "wf_node fs" and "lookup fs l = Some L" and "lookup fs r = Some R"
    and "Path_is_dir fs l" and "Path_is_dir fs r"
  shows "\<exists>self. compare_roots decodes md5 fs l r pb = Inr self
     \<and> (\<forall>q. file_against_dir L R q \<longrightarrow>
           l @ q \<in> set (left_only self) \<and> r @ q \<in> set (right_only self)
           \<and> l @ q \<notin> fst ` set (hash_diffs self) \<and> r @ q \<notin> snd ` set (hash_diffs self)
           \<and> (\<forall>q'. q' \<noteq> [] \<longrightarrow> r @ q @ q' \<notin> set (right_only self)
                     \<and> r @ q @ q' \<notin> snd ` set (hash_diffs self)))
     \<and> (\<forall>q. file_against_dir R L q \<longrightarrow>
           r @ q \<in> set (right_only self) \<and> l @ q \<in> set (left_only self)
           \<and> l @ q \<notin> fst ` set (hash_diffs self) \<and> r @ q \<notin> snd ` set (hash_diffs self)
           \<and> (\<forall>q'. q' \<noteq> [] \<longrightarrow> l @ q @ q' \<notin> set (left_only self)
                     \<and> l @ q @ q' \<notin> fst ` set (hash_diffs self)))"
proof -
  obtain lcs rcs where L: "L = Dir lcs" and R: "R = Dir rcs"
    using assms(2-5) by (auto simp: Path_is_dir_lookup)
  obtain self where run: "compare_roots decodes md5 fs l r pb = Inr self"
    and lo: "set (left_only self) = {l @ q | q. only_in L R q}"
    and ro: "set (right_only self) = {r @ q | q. only_in R L q}"
    and hd: "set (hash_diffs self) = {(l @ q, r @ q) | q. differs decodes md5 L R q}"
    using compare_roots_sets [OF assms(1), of l lcs r rcs decodes md5 pb] assms(2,3)
    unfolding L R by blast
  have lo': "l @ q \<in> set (left_only self) \<longleftrightarrow> only_in L R q"
    and ro': "r @ q \<in> set (right_only self) \<longleftrightarrow> only_in R L q"
    and hl': "l @ q \<in> fst ` set (hash_diffs self) \<longleftrightarrow> differs decodes md5 L R q"
    and hr': "r @ q \<in> snd ` set (hash_diffs self) \<longleftrightarrow> differs decodes md5 L R q" for q
    unfolding lo ro hd by (simp_all only: mem_under mem_under_fst mem_under_snd)
  have a: "l @ q \<in> set (left_only self) \<and> r @ q \<in> set (right_only self)
           \<and> l @ q \<notin> fst ` set (hash_diffs self) \<and> r @ q \<notin> snd ` set (hash_diffs self)
           \<and> (\<forall>q'. q' \<noteq> [] \<longrightarrow> r @ q @ q' \<notin> set (right_only self)
                     \<and> r @ q @ q' \<notin> snd ` set (hash_diffs self))"
    if h: "file_against_dir L R q" for q
  proof -
    note f = file_against_dir_only_in [OF h]
    show ?thesis
      using f(1,2) f(3) [of decodes md5] nothing_below_left(1,4) [OF f(5), where A = R]
      by (simp add: lo' ro' hl' hr')
  qed
  have b: "r @ q \<in> set (right_only self) \<and> l @ q \<in> set (left_only self)
           \<and> l @ q \<notin> fst ` set (hash_diffs self) \<and> r @ q \<notin> snd ` set (hash_diffs self)
           \<and> (\<forall>q'. q' \<noteq> [] \<longrightarrow> l @ q @ q' \<notin> set (left_only self)
                     \<and> l @ q @ q' \<notin> fst ` set (hash_diffs self))"
    if h: "file_against_dir R L q" for q
  proof -
    note f = file_against_dir_only_in [OF h]
    show ?thesis
      using f(1,2) f(4) [of decodes md5] nothing_below_left(1,2) [OF f(5), where A = L]
      by (simp add: lo' ro' hl' hr')
  qed
  show ?thesis
    by (rule exI [of _ self]) (use run a b in blast)
qed

theorem file_and_directory_of_one_name_witness:
  "wf_node (Dir [(''L'', Dir [(''x'', File [1])]),
                 (''R'', Dir [(''x'', Dir [(''y'', File [1])])])])
   \<and> file_against_dir (Dir [(''x'', File [1])]) (Dir [(''x'', Dir [(''y'', File [1])])]) [''x'']
   \<and> compare_roots (\<lambda>bs. True) (\<lambda>bs. bs)
        (Dir [(''L'', Dir [(''x'', File [1])]),
              (''R'', Dir [(''x'', Dir [(''y'', File [1])])])]) [''L''] [''R''] False
       = Inr \<lparr>dirs_data = \<lparr>data_left = \<lparr>path = [''L''], diff = [[''L'', ''x'']]\<rparr>,
                            data_right = \<lparr>path = [''R''], diff = [[''R'', ''x'']]\<rparr>,
                            hash_diff = []\<rparr>,
               progress_bar = False\<rparr>
   \<and> [''L'', ''x''] \<in> set [[''L'', ''x'']]
   \<and> [''R'', ''x''] \<in> set [[''R'', ''x'']]
   \<and> [''R'', ''x'', ''y''] \<notin> set [[''R'', ''x'']]"
proof -
  let ?fs = "Dir [(''L'', Dir [(''x'', File [1])]),
                  (''R'', Dir [(''x'', Dir [(''y'', File [1])])])]"
  have h1: "wf_node ?fs" by simp
  have h2: "lookup ?fs [''L''] = Some (Dir [(''x'', File [1])])"
    and h3: "lookup ?fs [''R''] = Some (Dir [(''x'', Dir [(''y'', File [1])])])"
    by simp_all
  have h4: "Path_is_dir ?fs [''L'']" and h5: "Path_is_dir ?fs [''R'']"
    by (simp_all add: Path_is_dir_def)
  have u: "file_against_dir (Dir [(''x'', File [1])]) (Dir [(''x'', Dir [(''y'', File [1])])]) [''x'']"
    by (simp add: file_against_dir_def Path_is_dir_def Path_is_file_def)
  have run: "compare_roots (\<lambda>bs. True) (\<lambda>bs. bs) ?fs [''L''] [''R''] False
       = Inr \<lparr>dirs_data = \<lparr>data_left = \<lparr>path = [''L''], diff = [[''L'', ''x'']]\<rparr>,
                            data_right = \<lparr>path = [''R''], diff = [[''R'', ''x'']]\<rparr>,
                            hash_diff = []\<rparr>,
               progress_bar = False\<rparr>"
    by (simp add: compare_roots_def eval_defs)
  obtain self where s: "compare_roots (\<lambda>bs. True) (\<lambda>bs. bs) ?fs [''L''] [''R''] False = Inr self"
    and a: "\<forall>q. file_against_dir (Dir [(''x'', File [1])]) (Dir [(''x'', Dir [(''y'', File [1])])]) q \<longrightarrow>
           [''L''] @ q \<in> set (left_only self) \<and> [''R''] @ q \<in> set (right_only self)
           \<and> [''L''] @ q \<notin> fst ` set (hash_diffs self) \<and> [''R''] @ q \<notin> snd ` set (hash_diffs self)
           \<and> (\<forall>q'. q' \<noteq> [] \<longrightarrow> [''R''] @ q @ q' \<notin> set (right_only self)
                     \<and> [''R''] @ q @ q' \<notin> snd ` set (hash_diffs self))"
    using file_and_directory_of_one_name [OF h1 h2 h3 h4 h5, of "\<lambda>bs. True" "\<lambda>bs. bs" False]
    by blast
  have e: "self = \<lparr>dirs_data = \<lparr>data_left = \<lparr>path = [''L''], diff = [[''L'', ''x'']]\<rparr>,
                            data_right = \<lparr>path = [''R''], diff = [[''R'', ''x'']]\<rparr>,
                            hash_diff = []\<rparr>,
               progress_bar = False\<rparr>"
    using s run by simp
  have "[''L''] @ [''x''] \<in> set (left_only self)"
    and "[''R''] @ [''x''] \<in> set (right_only self)"
    and "[''R''] @ [''x''] @ [''y''] \<notin> set (right_only self)"
    using a u by blast+
  then have m: "[''L'', ''x''] \<in> set [[''L'', ''x'']]"
    and n: "[''R'', ''x''] \<in> set [[''R'', ''x'']]"
    and o: "[''R'', ''x'', ''y''] \<notin> set [[''R'', ''x'']]"
    unfolding e by simp_all
  from h1 u run m n o show ?thesis by (intro conjI)
qed

section \<open>The comparison in the other direction\<close>

text \<open>
  Claim C3, as amended. For a well-formed filesystem and two roots that are directories,
  both comparisons return; the left-only list of the comparison of (L, R) is the
  right-only list of the comparison of (R, L) and the other way round, whatever the files
  hold. The differences list of the one is the list of the swapped pairs of the other,
  provided that the text probe classifies both files alike for every relative path that
  is a regular file on both sides with one size above 1,000,000 bytes.
\<close>

theorem diff_mirror:
  assumes "wf_node fs" and "lookup fs l = Some L" and "lookup fs r = Some R"
    and "Path_is_dir fs l" and "Path_is_dir fs r"
  shows "\<exists>lr rl. compare_roots decodes md5 fs l r pb = Inr lr
     \<and> compare_roots decodes md5 fs r l pb = Inr rl
     \<and> left_only lr = right_only rl
     \<and> right_only lr = left_only rl
     \<and> (same_classification decodes L R
          \<longrightarrow> hash_diffs lr = map prod.swap (hash_diffs rl))"
proof -
  obtain lcs rcs where L: "L = Dir lcs" and R: "R = Dir rcs"
    using assms(2-5) by (auto simp: Path_is_dir_lookup)
  have ll: "lookup fs l = Some (Dir lcs)" and lr: "lookup fs r = Some (Dir rcs)"
    using assms(2,3) L R by simp_all
  let ?pb = "pb \<and> 0 < rglob_count_children lcs + rglob_count_children rcs"
  let ?s = "\<lparr>dirs_data = DirsData_init l r, progress_bar = ?pb\<rparr>"
  let ?lr = "compare_dir_contents decodes md5 (l, lcs) (r, rcs) ?s"
  let ?rl = "compare_dir_contents decodes md5 (r, rcs) (l, lcs) (swap_sides ?s)"
  have w: "wf_node (Dir (snd (l, lcs)))" "wf_node (Dir (snd (r, rcs)))"
    using wf_lookup [OF assms(1) ll] wf_lookup [OF assms(1) lr] by simp_all
  have s: "swap_sides ?s = \<lparr>dirs_data = DirsData_init r l,
             progress_bar = (pb \<and> 0 < rglob_count_children rcs + rglob_count_children lcs)\<rparr>"
    by (simp add: swap_sides_def DirsData_init_def add.commute)
  have 1: "compare_roots decodes md5 fs l r pb = Inr ?lr"
    by (rule compare_roots_eq [OF ll lr])
  have 2: "compare_roots decodes md5 fs r l pb = Inr ?rl"
    unfolding compare_roots_eq [OF lr ll] s ..
  note only = only_lists_mirror [OF w, of decodes md5 ?s]
  have 3: "hash_diffs ?lr = map prod.swap (hash_diffs ?rl)"
    if c: "same_classification decodes L R"
  proof -
    have g: "good_dir decodes md5 (l, lcs) (r, rcs)"
      using w same_classification_sym_on [OF c, of md5] by (simp add: good_dir_def L R)
    show ?thesis
      unfolding mirror_rec(1) [OF g, symmetric]
      by (simp add: comp_def del: compare_dir_contents.simps)
  qed
  from 1 2 only 3 show ?thesis by blast
qed

text \<open>
  Claim C3 as stated fails, since only the left file is probed: a binary file and a text
  file of the same name and of 1,000,001 bytes each are taken as equal when the binary
  one is on the left, and are hashed and found different when the text one is.
\<close>

theorem mirror_fails_for_large_binary:
  "compare_roots (\<lambda>bs. 255 \<notin> set bs) (\<lambda>bs. bs)
     (Dir [(''L'', Dir [(''f'', File (replicate 1000001 255))]),
           (''R'', Dir [(''f'', File (replicate 1000001 97))])]) [''L''] [''R''] False
     = Inr \<lparr>dirs_data = \<lparr>data_left = \<lparr>path = [''L''], diff = []\<rparr>,
                          data_right = \<lparr>path = [''R''], diff = []\<rparr>,
                          hash_diff = []\<rparr>,
             progress_bar = False\<rparr>
   \<and> compare_roots (\<lambda>bs. 255 \<notin> set bs) (\<lambda>bs. bs)
     (Dir [(''L'', Dir [(''f'', File (replicate 1000001 255))]),
           (''R'', Dir [(''f'', File (replicate 1000001 97))])]) [''R''] [''L''] False
     = Inr \<lparr>dirs_data = \<lparr>data_left = \<lparr>path = [''R''], diff = []\<rparr>,
                          data_right = \<lparr>path = [''L''], diff = []\<rparr>,
                          hash_diff = [([''R'', ''f''], [''L'', ''f''])]\<rparr>,
             progress_bar = False\<rparr>"
  by (simp add: compare_roots_def eval_defs)

theorem diff_mirror_witness:
  "wf_node (Dir [(''L'', Dir [(''f'', File (replicate 1000001 255)), (''g'', File [1])]),
                 (''R'', Dir [(''f'', File (replicate 1000001 255)), (''g'', File [2]),
                              (''h'', File [])])])
   \<and> same_classification (\<lambda>bs. 255 \<notin> set bs)
        (Dir [(''f'', File (replicate 1000001 255)), (''g'', File [1])])
        (Dir [(''f'', File (replicate 1000001 255)), (''g'', File [2]), (''h'', File [])])
   \<and> compare_roots (\<lambda>bs. 255 \<notin> set bs) (\<lambda>bs. bs)
        (Dir [(''L'', Dir [(''f'', File (replicate 1000001 255)), (''g'', File [1])]),
              (''R'', Dir [(''f'', File (replicate 1000001 255)), (''g'', File [2]),
                           (''h'', File [])])]) [''L''] [''R''] False
       = Inr \<lparr>dirs_data = \<lparr>data_left = \<lparr>path = [''L''], diff = []\<rparr>,
                            data_right = \<lparr>path = [''R''], diff = [[''R'', ''h'']]\<rparr>,
                            hash_diff = [([''L'', ''g''], [''R'', ''g''])]\<rparr>,
               progress_bar = False\<rparr>
   \<and> compare_roots (\<lambda>bs. 255 \<notin> set bs) (\<lambda>bs. bs)
        (Dir [(''L'', Dir [(''f'', File (replicate 1000001 255)), (''g'', File [1])]),
              (''R'', Dir [(''f'', File (replicate 1000001 255)), (''g'', File [2]),
                           (''h'', File [])])]) [''R''] [''L''] False
       = Inr \<lparr>dirs_data = \<lparr>data_left = \<lparr>path = [''R''], diff = [[''R'', ''h'']]\<rparr>,
                            data_right = \<lparr>path = [''L''], diff = []\<rparr>,
                            hash_diff = [([''R'', ''g''], [''L'', ''g''])]\<rparr>,
               progress_bar = False\<rparr>
   \<and> left_only \<lparr>dirs_data = \<lparr>data_left = \<lparr>path = [''L''], diff = []\<rparr>,
                            data_right = \<lparr>path = [''R''], diff = [[''R'', ''h'']]\<rparr>,
                            hash_diff = [([''L'', ''g''], [''R'', ''g''])]\<rparr>,
               progress_bar = False\<rparr>
       = right_only \<lparr>dirs_data = \<lparr>data_left = \<lparr>path = [''R''], diff = [[''R'', ''h'']]\<rparr>,
                            data_right = \<lparr>path = [''L''], diff = []\<rparr>,
                            hash_diff = [([''R'', ''g''], [''L'', ''g''])]\<rparr>,
               progress_bar = False\<rparr>
   \<and> right_only \<lparr>dirs_data = \<lparr>data_left = \<lparr>path = [''L''], diff = []\<rparr>,
                            data_right = \<lparr>path = [''R''], diff = [[''R'', ''h'']]\<rparr>,
                            hash_diff = [([''L'', ''g''], [''R'', ''g''])]\<rparr>,
               progress_bar = False\<rparr>
       = left_only \<lparr>dirs_data = \<lparr>data_left = \<lparr>path = [''R''], diff = [[''R'', ''h'']]\<rparr>,
                            data_right = \<lparr>path = [''L''], diff = []\<rparr>,
                            hash_diff = [([''R'', ''g''], [''L'', ''g''])]\<rparr>,
               progress_bar = False\<rparr>
   \<and> hash_diffs \<lparr>dirs_data = \<lparr>data_left = \<lparr>path = [''L''], diff = []\<rparr>,
                            data_right = \<lparr>path = [''R''], diff = [[''R'', ''h'']]\<rparr>,
                            hash_diff = [([''L'', ''g''], [''R'', ''g''])]\<rparr>,
               progress_bar = False\<rparr>
       = map prod.swap (hash_diffs \<lparr>dirs_data = \<lparr>data_left = \<lparr>path = [''R''], diff = [[''R'', ''h'']]\<rparr>,
                            data_right = \<lparr>path = [''L''], diff = []\<rparr>,
                            hash_diff = [([''R'', ''g''], [''L'', ''g''])]\<rparr>,
               progress_bar = False\<rparr>)"
proof -
  let ?L = "Dir [(''f'', File (replicate 1000001 255)), (''g'', File [1])]"
  let ?R = "Dir [(''f'', File (replicate 1000001 255)), (''g'', File [2]), (''h'', File [])]"
  let ?fs = "Dir [(''L'', ?L), (''R'', ?R)]"
  let ?dec = "\<lambda>bs :: byte list. 255 \<notin> set bs"
  have h1: "wf_node ?fs" by simp
  have h2: "lookup ?fs [''L''] = Some ?L" and h3: "lookup ?fs [''R''] = Some ?R"
    by simp_all
  have h4: "Path_is_dir ?fs [''L'']" and h5: "Path_is_dir ?fs [''R'']"
    by (simp_all add: Path_is_dir_def)
  have h6: "same_classification ?dec ?L ?R"
    unfolding same_classification_def
  proof (intro allI impI)
    fix p a b
    assume h: "lookup ?L p = Some (File a) \<and> lookup ?R p = Some (File b)
                 \<and> length a = length b \<and> 1000000 < length a"
    then obtain x p' where p: "p = x # p'" by (cases p) auto
    from h show "(255 \<notin> set a) = (255 \<notin> set b)"
      unfolding p by (cases p') (auto split: if_splits)
  qed
  let ?X = "\<lparr>dirs_data = \<lparr>data_left = \<lparr>path = [''L''], diff = []\<rparr>,
                            data_right = \<lparr>path = [''R''], diff = [[''R'', ''h'']]\<rparr>,
                            hash_diff = [([''L'', ''g''], [''R'', ''g''])]\<rparr>,
               progress_bar = False\<rparr>"
  let ?Y = "\<lparr>dirs_data = \<lparr>data_left = \<lparr>path = [''R''], diff = [[''R'', ''h'']]\<rparr>,
                            data_right = \<lparr>path = [''L''], diff = []\<rparr>,
                            hash_diff = [([''R'', ''g''], [''L'', ''g''])]\<rparr>,
               progress_bar = False\<rparr>"
  have x: "compare_roots ?dec (\<lambda>bs. bs) ?fs [''L''] [''R''] False = Inr ?X"
    by (simp add: compare_roots_def eval_defs)
  have y: "compare_roots ?dec (\<lambda>bs. bs) ?fs [''R''] [''L''] False = Inr ?Y"
    by (simp add: compare_roots_def eval_defs)
  obtain lr rl where a: "compare_roots ?dec (\<lambda>bs. bs) ?fs [''L''] [''R''] False = Inr lr"
    and b: "compare_roots ?dec (\<lambda>bs. bs) ?fs [''R''] [''L''] False = Inr rl"
    and c: "left_only lr = right_only rl" "right_only lr = left_only rl"
    and d: "same_classification ?dec ?L ?R \<longrightarrow> hash_diffs lr = map prod.swap (hash_diffs rl)"
    using diff_mirror [OF h1 h2 h3 h4 h5, of ?dec "\<lambda>bs. bs" False] by blast
  have c': "hash_diffs lr = map prod.swap (hash_diffs rl)" using d h6 by simp
  have "lr = ?X" "rl = ?Y"
    using a b x y by simp_all
  then have m: "left_only ?X = right_only ?Y" "right_only ?X = left_only ?Y"
      "hash_diffs ?X = map prod.swap (hash_diffs ?Y)"
    using c c' by simp_all
  from h1 h6 x y m show ?thesis by (intro conjI)
qed

section \<open>Further properties\<close>

text \<open>
  The lists hold exactly the entries that differ. For two roots that are directories of
  a well-formed filesystem, the left-only list holds the paths that are only in the left
  tree, the right-only list those that are only in the right tree, and the differences
  list the pairs of regular files that the oracle tells apart.
\<close>

theorem comparison_classifies:
  assumes "wf_node fs" and "lookup fs l = Some L" and "lookup fs r = Some R"
    and "Path_is_dir fs l" and "Path_is_dir fs r"
  shows "\<exists>self. compare_roots decodes md5 fs l r pb = Inr self
     \<and> set (left_only self) = {l @ q | q. only_in L R q}
     \<and> set (right_only self) = {r @ q | q. only_in R L q}
     \<and> set (hash_diffs self) = {(l @ q, r @ q) | q. differs decodes md5 L R q}"
proof -
  obtain lcs rcs where L: "L = Dir lcs" and R: "R = Dir rcs"
    using assms(2-5) by (auto simp: Path_is_dir_lookup)
  show ?thesis
    using compare_roots_sets [OF assms(1), of l lcs r rcs decodes md5 pb] assms(2,3)
    unfolding L R by blast
qed

theorem comparison_classifies_witness:
  "wf_node (Dir [(''L'', Dir [(''a'', File [1]), (''b'', File [2])]),
                 (''R'', Dir [(''b'', File [3]), (''c'', File [4])])])
   \<and> compare_roots (\<lambda>bs. True) (\<lambda>bs. bs)
        (Dir [(''L'', Dir [(''a'', File [1]), (''b'', File [2])]),
              (''R'', Dir [(''b'', File [3]), (''c'', File [4])])]) [''L''] [''R''] False
       = Inr \<lparr>dirs_data = \<lparr>data_left = \<lparr>path = [''L''], diff = [[''L'', ''a'']]\<rparr>,
                            data_right = \<lparr>path = [''R''], diff = [[''R'', ''c'']]\<rparr>,
                            hash_diff = [([''L'', ''b''], [''R'', ''b''])]\<rparr>,
               progress_bar = False\<rparr>
   \<and> set [[''L'', ''a'']]
       = {[''L''] @ q | q. only_in (Dir [(''a'', File [1]), (''b'', File [2])])
                              (Dir [(''b'', File [3]), (''c'', File [4])]) q}"
proof -
  let ?L = "Dir [(''a'', File [1]), (''b'', File [2])]"
  let ?R = "Dir [(''b'', File [3]), (''c'', File [4])]"
  let ?fs = "Dir [(''L'', ?L), (''R'', ?R)]"
  let ?X = "\<lparr>dirs_data = \<lparr>data_left = \<lparr>path = [''L''], diff = [[''L'', ''a'']]\<rparr>,
                            data_right = \<lparr>path = [''R''], diff = [[''R'', ''c'']]\<rparr>,
                            hash_diff = [([''L'', ''b''], [''R'', ''b''])]\<rparr>,
               progress_bar = False\<rparr>"
  have h1: "wf_node ?fs" by simp
  have h2: "lookup ?fs [''L''] = Some ?L" and h3: "lookup ?fs [''R''] = Some ?R"
    by simp_all
  have h4: "Path_is_dir ?fs [''L'']" and h5: "Path_is_dir ?fs [''R'']"
    by (simp_all add: Path_is_dir_def)
  have x: "compare_roots (\<lambda>bs. True) (\<lambda>bs. bs) ?fs [''L''] [''R''] False = Inr ?X"
    by (simp add: compare_roots_def eval_defs)
  obtain self where s: "compare_roots (\<lambda>bs. True) (\<lambda>bs. bs) ?fs [''L''] [''R''] False = Inr self"
    and a: "set (left_only self) = {[''L''] @ q | q. only_in ?L ?R q}"
    using comparison_classifies [OF h1 h2 h3 h4 h5, of "\<lambda>bs. True" "\<lambda>bs. bs" False]
    by blast
  have "self = ?X" using s x by simp
  then have "set [[''L'', ''a'']] = {[''L''] @ q | q. only_in ?L ?R q}"
    using a by simp
  with h1 x show ?thesis by (intro conjI)
qed

text \<open>
  When the comparison found nothing, \<open>sync_dirs\<close> changes nothing, whatever its arguments.
\<close>

theorem sync_dirs_nothing_to_do:
  assumes "left_only self = []" and "right_only self = []" and "hash_diffs self = []"
  shows "sync_dirs self ov add rem dir fs = Inr fs"
  using assms by (simp add: sync_dirs_def Let_def)

theorem sync_dirs_nothing_to_do_witness:
  "left_only \<lparr>dirs_data = \<lparr>data_left = \<lparr>path = [''L''], diff = []\<rparr>,
                          data_right = \<lparr>path = [''R''], diff = []\<rparr>, hash_diff = []\<rparr>,
             progress_bar = False\<rparr> = []
   \<and> sync_dirs \<lparr>dirs_data = \<lparr>data_left = \<lparr>path = [''L''], diff = []\<rparr>,
                          data_right = \<lparr>path = [''R''], diff = []\<rparr>, hash_diff = []\<rparr>,
             progress_bar = False\<rparr> (Some True) (Some True) (Some True) (Some False)
        (Dir [(''L'', Dir [(''a'', File [1])]), (''R'', Dir [(''a'', File [1])])])
       = Inr (Dir [(''L'', Dir [(''a'', File [1])]), (''R'', Dir [(''a'', File [1])])])"
proof -
  let ?s = "\<lparr>dirs_data = \<lparr>data_left = \<lparr>path = [''L''], diff = []\<rparr>,
                          data_right = \<lparr>path = [''R''], diff = []\<rparr>, hash_diff = []\<rparr>,
             progress_bar = False\<rparr>"
  have a: "left_only ?s = []" and b: "right_only ?s = []" and c: "hash_diffs ?s = []"
    by simp_all
  from sync_dirs_nothing_to_do [OF a b c] a show ?thesis by simp
qed

section \<open>Mirroring without a file and a directory of one name\<close>

text \<open>
  Mirroring succeeds where no name is a regular file on one side and a directory on
  the other. Take a well-formed filesystem, two roots that are
  directories and of which neither lies in the other, no special file under either, and
  a comparison that puts no relative path on both \<open>-only\<close> lists. Then \<open>main\<close> with
  \<open>--mirror-contents\<close> and without \<open>--reverse-sync-direction\<close> returns; it changes no kind
  under the left root; and a comparison of the two roots afterwards finds nothing: its
  three lists are empty.
\<close>

theorem mirror_without_kind_conflict:
  assumes wf: "wf_node fs"
    and lL: "lookup fs l = Some (Dir lcs)" and lR: "lookup fs r = Some (Dir rcs)"
    and ind: "\<not> prefix l r" "\<not> prefix r l"
    and nL: "\<not> has_special (Dir lcs)" and nR: "\<not> has_special (Dir rcs)"
    and first: "compare_roots decodes md5 fs l r (HideProgressBar \<notin> set flags) = Inr first"
    and dis: "relative_paths l (left_only first) \<inter> relative_paths r (right_only first) = {}"
    and mir: "MirrorContents \<in> set flags" and fwd: "ReverseSyncDirection \<notin> set flags"
  shows "\<exists>fs'. main decodes md5 (prepare_args_parser l r flags) fs = Inr (first, fs')
     \<and> (\<forall>q. kind_at fs' (l @ q) = kind_at fs (l @ q))
     \<and> (\<exists>again. compare_roots decodes md5 fs' l r pb = Inr again
          \<and> left_only again = [] \<and> right_only again = [] \<and> hash_diffs again = [])"
proof -
  obtain self where s: "compare_roots decodes md5 fs l r (HideProgressBar \<notin> set flags) = Inr self"
      "set (left_only self) = {l @ q | q. only_in (Dir lcs) (Dir rcs) q}"
      "set (right_only self) = {r @ q | q. only_in (Dir rcs) (Dir lcs) q}"
      "set (hash_diffs self) = {(l @ q, r @ q) | q. differs decodes md5 (Dir lcs) (Dir rcs) q}"
    using compare_roots_sets [OF wf lL lR, of decodes md5 "HideProgressBar \<notin> set flags"] by blast
  have e: "self = first" using s(1) first by simp
  note sets = s(2,3,4) [unfolded e]
  have paths: "path (data_left (dirs_data first)) = l" "path (data_right (dirs_data first)) = r"
    using compare_roots_paths [OF lL lR first] by simp_all
  have noc: "\<forall>q. \<not> kind_conflict (Dir lcs) (Dir rcs) q"
    using disjoint_no_conflict [OF sets(1,2) dis] by simp
  have kL: "\<forall>q. kind_at (Dir lcs) q \<noteq> Some KSpecial" using no_special_kind [OF nL] by simp
  have kR: "\<forall>q. kind_at (Dir rcs) q \<noteq> Some KSpecial" using no_special_kind [OF nR] by simp
  obtain fs' where f: "sync_one_way l (left_only first) r (right_only first) (hash_diffs first)
        True True True fs = Inr fs'" "wf_node fs'"
      "\<forall>q. kind_at fs' (l @ q) = kind_at (Dir lcs) q"
      "\<forall>q. kind_at fs' (r @ q) = kind_at (Dir lcs) q
            \<or> (\<exists>a b. kind_at (Dir lcs) q = Some (KFile a)
                     \<and> kind_at fs' (r @ q) = Some (KFile b) \<and> verdict decodes md5 a b)"
    using mirror_kinds [OF wf lL lR ind kL kR noc sets] by blast
  have m: "main decodes md5 (prepare_args_parser l r flags) fs = Inr (first, fs')"
    using main_mirror [OF mir fwd first] f(1) by (simp add: paths)
  have src: "\<forall>q. kind_at fs' (l @ q) = kind_at fs (l @ q)"
    using f(3) kind_at_append [OF lL] by simp
  have "kind_at fs' l = Some KDir" using f(3) [rule_format, of "[]"] by simp
  then obtain lcs' where lL': "lookup fs' l = Some (Dir lcs')"
    by (auto simp: kind_at_def)
  have "kind_at fs' r = Some KDir" using f(4) [rule_format, of "[]"] by simp
  then obtain rcs' where lR': "lookup fs' r = Some (Dir rcs')"
    by (auto simp: kind_at_def)
  have agree: "\<forall>q. kind_at fs' (r @ q) = kind_at fs' (l @ q)
            \<or> (\<exists>a b. kind_at fs' (l @ q) = Some (KFile a)
                     \<and> kind_at fs' (r @ q) = Some (KFile b) \<and> verdict decodes md5 a b)"
    using f(3,4) by simp
  from agree_compare_empty [OF f(2) lL' lR' agree, of pb] m src show ?thesis by blast
qed

theorem mirror_without_kind_conflict_witness:
  "wf_node (Dir [(''L'', Dir [(''a'', File [1]), (''c'', File [2]),
                              (''d'', Dir [(''e'', File [3])])]),
                 (''R'', Dir [(''b'', File [1]), (''c'', File [5])])])
   \<and> main (\<lambda>bs. True) (\<lambda>bs. bs) (prepare_args_parser [''L''] [''R''] [MirrorContents])
       (Dir [(''L'', Dir [(''a'', File [1]), (''c'', File [2]),
                          (''d'', Dir [(''e'', File [3])])]),
             (''R'', Dir [(''b'', File [1]), (''c'', File [5])])])
     = Inr (\<lparr>dirs_data =
               \<lparr>data_left = \<lparr>path = [''L''], diff = [[''L'', ''a''], [''L'', ''d'']]\<rparr>,
                data_right = \<lparr>path = [''R''], diff = [[''R'', ''b'']]\<rparr>,
                hash_diff = [([''L'', ''c''], [''R'', ''c''])]\<rparr>,
             progress_bar = True\<rparr>,
            Dir [(''L'', Dir [(''a'', File [1]), (''c'', File [2]),
                              (''d'', Dir [(''e'', File [3])])]),
                 (''R'', Dir [(''c'', File [2]), (''a'', File [1]),
                              (''d'', Dir [(''e'', File [3])])])])
   \<and> (\<exists>again. compare_roots (\<lambda>bs. True) (\<lambda>bs. bs)
         (Dir [(''L'', Dir [(''a'', File [1]), (''c'', File [2]),
                            (''d'', Dir [(''e'', File [3])])]),
               (''R'', Dir [(''c'', File [2]), (''a'', File [1]),
                            (''d'', Dir [(''e'', File [3])])])])
         [''L''] [''R''] False = Inr again
        \<and> left_only again = [] \<and> right_only again = [] \<and> hash_diffs again = [])"
proof -
  let ?L = "Dir [(''a'', File [1]), (''c'', File [2]), (''d'', Dir [(''e'', File [3])])]"
  let ?R = "Dir [(''b'', File [1]), (''c'', File [5])]"
  let ?fs = "Dir [(''L'', ?L), (''R'', ?R)]"
  let ?X = "\<lparr>dirs_data =
               \<lparr>data_left = \<lparr>path = [''L''], diff = [[''L'', ''a''], [''L'', ''d'']]\<rparr>,
                data_right = \<lparr>path = [''R''], diff = [[''R'', ''b'']]\<rparr>,
                hash_diff = [([''L'', ''c''], [''R'', ''c''])]\<rparr>,
             progress_bar = True\<rparr>"
  let ?fs' = "Dir [(''L'', ?L),
                   (''R'', Dir [(''c'', File [2]), (''a'', File [1]),
                                (''d'', Dir [(''e'', File [3])])])]"
  have h1: "wf_node ?fs" by simp
  have h2: "lookup ?fs [''L''] = Some ?L" by simp
  have h3: "lookup ?fs [''R''] = Some ?R" by simp
  have h4: "\<not> prefix [''L''] [''R'']" by simp
  have h5: "\<not> prefix [''R''] [''L'']" by simp
  have h6: "\<not> has_special ?L" by simp
  have h7: "\<not> has_special ?R" by simp
  have h8: "compare_roots (\<lambda>bs. True) (\<lambda>bs. bs) ?fs [''L''] [''R'']
              (HideProgressBar \<notin> set [MirrorContents]) = Inr ?X"
    by (simp add: compare_roots_def eval_defs)
  have h9: "relative_paths [''L''] (left_only ?X) \<inter> relative_paths [''R''] (right_only ?X) = {}"
    by (auto simp: relative_paths_iff)
  have h10: "MirrorContents \<in> set [MirrorContents]" by simp
  have h11: "ReverseSyncDirection \<notin> set [MirrorContents]" by simp
  obtain fs' where m: "main (\<lambda>bs. True) (\<lambda>bs. bs)
        (prepare_args_parser [''L''] [''R''] [MirrorContents]) ?fs = Inr (?X, fs')"
    and again: "\<exists>again. compare_roots (\<lambda>bs. True) (\<lambda>bs. bs) fs' [''L''] [''R''] False = Inr again
        \<and> left_only again = [] \<and> right_only again = [] \<and> hash_diffs again = []"
    using mirror_without_kind_conflict [OF h1 h2 h3 h4 h5 h6 h7 h8 h9 h10 h11, of False]
    by blast
  have e: "main (\<lambda>bs. True) (\<lambda>bs. bs)
        (prepare_args_parser [''L''] [''R''] [MirrorContents]) ?fs = Inr (?X, ?fs')"
    by (simp add: eval_defs)
  have "fs' = ?fs'" using m e by simp
  with again have a: "\<exists>again. compare_roots (\<lambda>bs. True) (\<lambda>bs. bs) ?fs' [''L''] [''R''] False
        = Inr again
        \<and> left_only again = [] \<and> right_only again = [] \<and> hash_diffs again = []"
    by simp
  from h1 e a show ?thesis by (intro conjI)
qed

end
